theory Spec2Isabelle
  imports Main "HOL-Library.Word" "HOL-Library.Sublist"
begin

section \<open>Values shared by the whole development\<close>

text \<open>
  The Go file \<^verbatim>\<open>integration-tests/ccip-tests/actions/ccip_helpers.go\<close> is embedded
  function by function. A \<^verbatim>\<open>uint64\<close> is a 64-bit word, a \<^verbatim>\<open>*big.Int\<close> that the
  code compares with \<^verbatim>\<open>nil\<close> is an \<open>int option\<close>, a \<^verbatim>\<open>time.Time\<close> is the number of
  nanoseconds since the epoch and a \<^verbatim>\<open>time.Duration\<close> the signed 64-bit count of
  nanoseconds that Go uses.
\<close>

type_synonym u64 = "64 word"
type_synonym address = string
type_synonym hash = string
type_synonym time = int
type_synonym Duration = int

text \<open>
  An error or a test-failure message is the format string of the \<^verbatim>\<open>fmt.Errorf\<close> call
  together with its arguments, so that theorems can quote the message of the source.
\<close>

datatype fmtarg =
    Str string
  | Uint u64
  | Num int
  | Byte "8 word"
  | Bytes "8 word list"
  | Interval u64 u64
  | Wrapped "error option"
and error = Errorf string "fmtarg list"

subsection \<open>Decimal text of a big integer\<close>

text \<open>
  \<^verbatim>\<open>(*big.Int).String\<close> prints a nil receiver as \<^verbatim>\<open><nil>\<close> and a number in base 10,
  with a minus sign for negative numbers and no leading zero.
\<close>

definition digit_char :: "nat \<Rightarrow> char" where
  "digit_char d = char_of (48 + d)"

fun nat_String :: "nat \<Rightarrow> string" where
  "nat_String n = (if n < 10 then [digit_char n] else nat_String (n div 10) @ [digit_char (n mod 10)])"

declare nat_String.simps [simp del]

definition int_String :: "int \<Rightarrow> string" where
  "int_String i = (if i < 0 then CHR ''-'' # nat_String (nat (- i)) else nat_String (nat i))"

definition big_String :: "int option \<Rightarrow> string" where
  "big_String b = (case b of None \<Rightarrow> ''<nil>'' | Some i \<Rightarrow> int_String i)"

text \<open>
  \<^verbatim>\<open>(*big.Int).SetString(s, 10)\<close> accepts an optional sign followed by at least one
  decimal digit and nothing else; any other text gives a nil result.
\<close>

definition is_digit :: "char \<Rightarrow> bool" where
  "is_digit c = (48 \<le> (of_char c :: nat) \<and> (of_char c :: nat) \<le> 57)"

definition digits_value :: "string \<Rightarrow> nat" where
  "digits_value s = foldl (\<lambda>a c. 10 * a + ((of_char c :: nat) - 48)) 0 s"

definition SetString :: "string \<Rightarrow> int option" where
  "SetString s =
     (case s of
        [] \<Rightarrow> None
      | c # r \<Rightarrow>
          if c = CHR ''-'' then
            (if r \<noteq> [] \<and> list_all is_digit r then Some (- int (digits_value r)) else None)
          else if c = CHR ''+'' then
            (if r \<noteq> [] \<and> list_all is_digit r then Some (int (digits_value r)) else None)
          else if list_all is_digit s then Some (int (digits_value s)) else None)"

section \<open>The test context\<close>

text \<open>
  A \<^verbatim>\<open>*testing.T\<close> is the list of failures recorded so far. \<^verbatim>\<open>assert\<close> records a
  failure and goes on; \<^verbatim>\<open>require\<close> records it and stops the test goroutine
  (\<^verbatim>\<open>t.FailNow\<close>), which is the outcome \<open>Goexit\<close>. A nil dereference is \<open>Panic\<close>.
\<close>

type_synonym T = "error list"

datatype 'a run = Return 'a T | Goexit T | Panic T

section \<open>Balance sheet\<close>

text \<open>
  The getter of an item reads the balance of the address from the chain and may return
  nil; what it does with the test context is not part of the model.
\<close>

record BalanceItem =
  Address :: address
  Getter :: "address \<Rightarrow> int option"
  PreviousBalance :: "int option"
  AmtToAdd :: "int option"
  AmtToSub :: "int option"

text \<open>
  Modelled from the spec: the struct \<^verbatim>\<open>testhelpers.BalanceAssertion\<close> is declared
  outside the given sources; its fields are the ones \<^verbatim>\<open>AssertBalances\<close> and
  \<^verbatim>\<open>Verify\<close> read and write.
\<close>

record BalanceAssertion =
  Name :: string
  BA_Address :: address
  BA_Getter :: "address \<Rightarrow> int option"
  Expected :: string
  Within :: string

text \<open>
  The maps of the sheet hold non-nil numbers: \<^verbatim>\<open>Verify\<close> passes every recorded
  balance to \<^verbatim>\<open>big.Int.Add\<close> without a nil check. The mutex is left out, every
  operation below being one critical section.
\<close>

record BalanceSheet =
  Items :: "string \<rightharpoonup> BalanceItem"
  PrevBalance :: "string \<rightharpoonup> int"

definition NewBalanceSheet :: BalanceSheet where
  "NewBalanceSheet = \<lparr>Items = Map.empty, PrevBalance = Map.empty\<rparr>"

definition Update :: "BalanceSheet \<Rightarrow> string \<Rightarrow> BalanceItem \<Rightarrow> BalanceSheet" where
  "Update b key item =
     (case Items b key of
        None \<Rightarrow> b\<lparr>Items := (Items b)(key \<mapsto> item)\<rparr>
      | Some prev \<Rightarrow>
          (let amtToAdd0 = (case AmtToAdd prev of Some a \<Rightarrow> a | None \<Rightarrow> 0);
               amtToSub0 = (case AmtToSub prev of Some s \<Rightarrow> s | None \<Rightarrow> 0);
               amtToAdd = (case AmtToAdd item of Some a \<Rightarrow> amtToAdd0 + a | None \<Rightarrow> amtToAdd0);
               amtToSub = (case AmtToSub item of Some s \<Rightarrow> amtToSub0 + s | None \<Rightarrow> amtToSub0)
           in b\<lparr>Items := (Items b)(key \<mapsto>
                 \<lparr>Address = Address item, Getter = Getter item, PreviousBalance = None,
                  AmtToAdd = Some amtToAdd, AmtToSub = Some amtToSub\<rparr>)\<rparr>))"

text \<open>
  \<^verbatim>\<open>for key, value := range bal\<close> visits the keys of a Go map in an order the language
  leaves open; the order is the list \<open>ks\<close>, which holds every key of \<open>bal\<close>.
\<close>

fun RecordBalance_range :: "(string \<rightharpoonup> int) \<Rightarrow> (string \<rightharpoonup> int) \<Rightarrow> string list \<Rightarrow> (string \<rightharpoonup> int)" where
  "RecordBalance_range prevBalance bal [] = prevBalance"
| "RecordBalance_range prevBalance bal (key # ks) =
     (case bal key of
        None \<Rightarrow> RecordBalance_range prevBalance bal ks
      | Some v \<Rightarrow>
          (case prevBalance key of
             None \<Rightarrow> RecordBalance_range (prevBalance(key \<mapsto> v)) bal ks
           | Some _ \<Rightarrow> RecordBalance_range prevBalance bal ks))"

definition RecordBalance :: "BalanceSheet \<Rightarrow> (string \<rightharpoonup> int) \<Rightarrow> string list \<Rightarrow> BalanceSheet" where
  "RecordBalance b bal ks = b\<lparr>PrevBalance := RecordBalance_range (PrevBalance b) bal ks\<rparr>"

text \<open>
  \<^verbatim>\<open>AssertBalances\<close>: one iteration per assertion. \<^verbatim>\<open>assert.NotNil\<close> and
  \<^verbatim>\<open>assert.Equal\<close> record a failure and continue. In the \<^verbatim>\<open>Within\<close> branch the results
  of \<^verbatim>\<open>SetString\<close> are used unchecked and \<^verbatim>\<open>actual.Cmp\<close> dereferences \<^verbatim>\<open>actual\<close>.
\<close>

definition assert_NotNil :: "T \<Rightarrow> int option \<Rightarrow> string \<Rightarrow> T" where
  "assert_NotNil t actual name =
     (if actual = None then t @ [Errorf ''%v getter return nil'' [Str name]] else t)"

definition big_Cmp :: "int \<Rightarrow> int \<Rightarrow> int" where
  "big_Cmp x y = (if x < y then - 1 else if x = y then 0 else 1)"

fun AssertBalances :: "T \<Rightarrow> BalanceAssertion list \<Rightarrow> unit run" where
  "AssertBalances t [] = Return () t"
| "AssertBalances t (b # bas) =
     (let actual = BA_Getter b (BA_Address b);
          t1 = assert_NotNil t actual (Name b)
      in if Within b = [] then
           (let t2 = (if Expected b = big_String actual then t1
                      else t1 @ [Errorf ''wrong balance for %s got %s want %s''
                                   [Str (Name b), Str (big_String actual), Str (Expected b)]])
            in AssertBalances t2 bas)
         else
           (case (SetString (Expected b), SetString (Within b), actual) of
              (Some bi, Some withinI, Some a) \<Rightarrow>
                (let high = bi + withinI;
                     low = bi - withinI;
                     t2 = (if big_Cmp a high = - 1 then t1
                           else t1 @ [Errorf ''wrong balance for %s got %s outside expected range [%s, %s]''
                                        [Str (Name b), Str (int_String a), Str (int_String low), Str (int_String high)]]);
                     t3 = (if big_Cmp a low = 1 then t2
                           else t2 @ [Errorf ''wrong balance for %s got %s outside expected range [%s, %s]''
                                        [Str (Name b), Str (int_String a), Str (int_String low), Str (int_String high)]])
                 in AssertBalances t3 bas)
            | _ \<Rightarrow> Panic t1))"

text \<open>
  \<^verbatim>\<open>Verify\<close>: the range over \<^verbatim>\<open>b.Items\<close> in the order \<open>ks\<close> builds the assertions;
  \<^verbatim>\<open>require.Truef\<close> stops the test at the first key without a recorded balance.
\<close>

fun Verify_range :: "BalanceSheet \<Rightarrow> T \<Rightarrow> BalanceAssertion list \<Rightarrow> string list \<Rightarrow> (BalanceAssertion list) run" where
  "Verify_range b t balAssertions [] = Return balAssertions t"
| "Verify_range b t balAssertions (key # ks) =
     (case Items b key of
        None \<Rightarrow> Verify_range b t balAssertions ks
      | Some item \<Rightarrow>
          (case PrevBalance b key of
             None \<Rightarrow> Goexit (t @ [Errorf ''previous balance is not captured for %s'' [Str key]])
           | Some prevBalance \<Rightarrow>
               (let exp0 = prevBalance;
                    exp1 = (case AmtToAdd item of Some a \<Rightarrow> exp0 + a | None \<Rightarrow> exp0);
                    exp2 = (case AmtToSub item of Some s \<Rightarrow> exp1 - s | None \<Rightarrow> exp1)
                in Verify_range b t
                     (balAssertions @ [\<lparr>Name = key, BA_Address = Address item, BA_Getter = Getter item,
                                         Expected = int_String exp2, Within = []\<rparr>]) ks)))"

definition Verify :: "BalanceSheet \<Rightarrow> string list \<Rightarrow> T \<Rightarrow> unit run" where
  "Verify b ks t =
     (case Verify_range b t [] ks of
        Return balAssertions t' \<Rightarrow> AssertBalances t' balAssertions
      | Goexit t' \<Rightarrow> Goexit t'
      | Panic t' \<Rightarrow> Panic t')"

section \<open>Time\<close>

text \<open>
  \<^verbatim>\<open>Time.Sub\<close> of the Go library saturates at the least and the greatest
  \<^verbatim>\<open>Duration\<close>; \<^verbatim>\<open>time.Since(t)\<close> is \<^verbatim>\<open>time.Now().Sub(t)\<close>, the clock reading being
  the argument \<open>now\<close>. \<^verbatim>\<open>time.Time{}\<close> is the first instant of year 1.
\<close>

definition minDuration :: Duration where
  "minDuration = - (2 ^ 63)"

definition maxDuration :: Duration where
  "maxDuration = 2 ^ 63 - 1"

definition Second :: Duration where
  "Second = 1000000000"

definition time_Sub :: "time \<Rightarrow> time \<Rightarrow> Duration" where
  "time_Sub t u =
     (if t - u < minDuration then minDuration
      else if maxDuration < t - u then maxDuration
      else t - u)"

definition time_Since :: "time \<Rightarrow> time \<Rightarrow> Duration" where
  "time_Since now t = time_Sub now t"

definition zero_Time :: time where
  "zero_Time = - 62135596800 * 1000000000"

section \<open>Request statistics\<close>

text \<open>
  Modelled from the spec: the package \<^verbatim>\<open>testreporters\<close> (\<^verbatim>\<open>RequestStat\<close>,
  \<^verbatim>\<open>UpdateState\<close>, \<^verbatim>\<open>TransactionStats\<close>, the phase and status names) is outside the
  given sources. The spec gives a request a sequence number and a per-phase status
  log, and a phase status the values Pending, Success and Failure with the elapsed
  duration and the transaction metadata. \<^verbatim>\<open>UpdateState\<close> therefore sets the
  sequence number of the request and appends one entry to its log. The phase names
  are the ones the source passes to \<^verbatim>\<open>UpdateState\<close>. The fields of
  \<^verbatim>\<open>TransactionStats\<close> that the source fills with rendered text hold the value
  that is rendered.
\<close>

datatype Status = Pending | Success | Failure

datatype Phase = TX | CCIPSendRe | SourceLogFinalized | Commit | ReportBlessed | ExecStateChanged

record TransactionStats =
  TS_TxHash :: hash
  TS_GasUsed :: u64
  TS_CommitRoot :: hash
  TS_FinalizedByBlock :: "int option"
  TS_FinalizedAt :: "time option"

record PhaseStat =
  PS_SeqNum :: u64
  PS_Phase :: Phase
  PS_Duration :: Duration
  PS_Status :: Status
  PS_SendTransactionStats :: "TransactionStats option"

record RequestStat =
  ReqNo :: int
  SeqNum :: u64
  StatusLog :: "PhaseStat list"

definition UpdateState ::
  "RequestStat \<Rightarrow> u64 \<Rightarrow> Phase \<Rightarrow> Duration \<Rightarrow> Status \<Rightarrow> TransactionStats option \<Rightarrow> RequestStat" where
  "UpdateState stat seqNum step duration state sendTransactionStats =
     stat\<lparr>SeqNum := seqNum,
          StatusLog := StatusLog stat @
            [\<lparr>PS_SeqNum = seqNum, PS_Phase = step, PS_Duration = duration, PS_Status = state,
              PS_SendTransactionStats = sendTransactionStats\<rparr>]\<rparr>"

section \<open>Chain events and the watcher stores\<close>

text \<open>
  Modelled from the spec: the event structs come from generated contract bindings
  that are outside the given sources; each record has the fields the source reads. The
  bounds of a commit report's interval are \<^verbatim>\<open>uint64\<close>, as the sequence numbers that
  are looked up under the same keys. A hash is kept as its hexadecimal text, so
  \<^verbatim>\<open>Hash.Hex()\<close> is the identity.
\<close>

record Log =
  BlockNumber :: u64
  TxHash :: hash

record EVM2EVMOnRampCCIPSendRequested =
  Message_SequenceNumber :: u64
  SendRequested_Raw :: Log

record CommitStoreCommitReport =
  Interval_Min :: u64
  Interval_Max :: u64
  MerkleRoot :: hash

record CommitStoreReportAccepted =
  Report :: CommitStoreCommitReport
  ReportAccepted_Raw :: Log

record ARMContractTaggedRootBlessed =
  TaggedRoot_CommitStore :: address
  TaggedRoot_Root :: hash
  TaggedRootBlessed_Raw :: Log

record EVM2EVMOffRampExecutionStateChanged =
  ESC_SequenceNumber :: u64
  State :: "8 word"
  ReturnData :: "8 word list"
  ExecutionStateChanged_Raw :: Log

text \<open>
  A \<^verbatim>\<open>sync.Map\<close> holds values of type \<^verbatim>\<open>any\<close>; the waits test the value against
  \<^verbatim>\<open>nil\<close> and assert its dynamic type.
\<close>

datatype any =
    ANil
  | ASendRequested "EVM2EVMOnRampCCIPSendRequested list"
  | AReportAccepted CommitStoreReportAccepted
  | ALog Log
  | AExecutionStateChanged EVM2EVMOffRampExecutionStateChanged

text \<open>
  The lane: the fields of \<^verbatim>\<open>SourceCCIPModule\<close>, \<^verbatim>\<open>DestCCIPModule\<close> and their
  \<^verbatim>\<open>CCIPCommon\<close> that the waits and the subscription callbacks use. \<open>Dest_ARM\<close> says
  whether \<^verbatim>\<open>lane.Dest.Common.ARM\<close> is not nil; an \<^verbatim>\<open>*atomic.Bool\<close> is \<open>None\<close> when the
  pointer is nil.
\<close>

record CCIPLane =
  CCIPSendRequestedWatcher :: "string \<rightharpoonup> any"
  Source_IsConnectionRestoredRecently :: "bool option"
  ReportAcceptedWatcher :: "u64 \<rightharpoonup> any"
  ExecStateChangedWatcher :: "u64 \<rightharpoonup> any"
  ReportBlessedWatcher :: "hash \<rightharpoonup> any"
  ReportBlessedBySeqNum :: "u64 \<rightharpoonup> any"
  NextSeqNumToCommit :: u64
  Dest_IsConnectionRestoredRecently :: "bool option"
  Dest_ARM :: bool
  Dest_CommitStore_EthAddress :: address
  Dest_SourceChainId :: u64
  Dest_ChainID :: int

text \<open>
  What the chain client and the clock answer during one iteration of a wait loop:
  \<^verbatim>\<open>HeaderByNumber\<close> gives the block's timestamp or fails, \<^verbatim>\<open>GetTxReceipt\<close> gives the
  gas used of the receipt or a nil receipt (its error is only logged), and
  \<^verbatim>\<open>GetExpectedNextSequenceNumber\<close> gives the commit store's number or fails.
\<close>

record chain_client =
  Now :: time
  HeaderByNumber :: "u64 \<Rightarrow> time option"
  GetTxReceipt :: "hash \<Rightarrow> u64 option"
  GetExpectedNextSequenceNumber :: "u64 option"

text \<open>
  One step of a run: the case that a \<^verbatim>\<open>select\<close> of the wait loop takes (the ticker or
  the timer), or a step of another goroutine between two iterations, which changes the
  lane or does not complete (\<open>None\<close>).
\<close>

datatype select =
    TickerC chain_client
  | TimerC time
  | Interleaved "CCIPLane \<Rightarrow> CCIPLane option"

datatype timer_op = NewTimer Duration | Reset Duration

text \<open>
  What a wait hands back when it returns: its Go results \<open>ret\<close>, the request statistics
  it was given, the lane, the operations it made on its timer and the steps of the run
  that it did not consume.
\<close>

record ('r, 's) returned =
  ret :: 'r
  stats :: 's
  lane_after :: CCIPLane
  timer_ops :: "timer_op list"
  rest :: "select list"

section \<open>The phase waits\<close>

text \<open>
  Every wait is the \<^verbatim>\<open>for { select { ... } }\<close> loop of the source, run over the steps
  of a run: the loop function carries the local variables of the loop (the reset
  counter and the operations made on the timer so far) and returns \<open>None\<close> when the
  steps end before the wait has returned.
\<close>

subsection \<open>\<^verbatim>\<open>SourceCCIPModule.AssertEventCCIPSendRequested\<close>\<close>

type_synonym send_requested_ret =
  "EVM2EVMOnRampCCIPSendRequested list option \<times> time \<times> error option"

fun AssertEventCCIPSendRequested_loop ::
  "string \<Rightarrow> Duration \<Rightarrow> time \<Rightarrow> RequestStat list \<Rightarrow> nat \<Rightarrow> timer_op list \<Rightarrow> CCIPLane \<Rightarrow> select list
   \<Rightarrow> (send_requested_ret, RequestStat list) returned option" where
  "AssertEventCCIPSendRequested_loop txHash timeout prevEventAt reqStat resetTimer ops lane [] = None"
| "AssertEventCCIPSendRequested_loop txHash timeout prevEventAt reqStat resetTimer ops lane (Interleaved f # sched) =
     (case f lane of
        None \<Rightarrow> None
      | Some lane' \<Rightarrow> AssertEventCCIPSendRequested_loop txHash timeout prevEventAt reqStat resetTimer ops lane' sched)"
| "AssertEventCCIPSendRequested_loop txHash timeout prevEventAt reqStat resetTimer ops lane (TickerC cc # sched) =
     (case CCIPSendRequestedWatcher lane txHash of
        Some (ASendRequested sendRequestedEvents) \<Rightarrow>
          if length sendRequestedEvents = length reqStat then
            Some \<lparr>ret = (Some sendRequestedEvents, prevEventAt, None),
                  stats = map (\<lambda>(stat, sendRequestedEvent).
                              UpdateState stat (Message_SequenceNumber sendRequestedEvent) CCIPSendRe 0 Success None)
                            (zip reqStat sendRequestedEvents),
                  lane_after = lane\<lparr>CCIPSendRequestedWatcher := (CCIPSendRequestedWatcher lane)(txHash := None)\<rparr>,
                  timer_ops = ops, rest = sched\<rparr>
          else AssertEventCCIPSendRequested_loop txHash timeout prevEventAt reqStat resetTimer ops lane sched
      | _ \<Rightarrow> AssertEventCCIPSendRequested_loop txHash timeout prevEventAt reqStat resetTimer ops lane sched)"
| "AssertEventCCIPSendRequested_loop txHash timeout prevEventAt reqStat resetTimer ops lane (TimerC now # sched) =
     (if Source_IsConnectionRestoredRecently lane = Some False then
        (if resetTimer > 2 then
           Some \<lparr>ret = (None, now,
                        Some (Errorf ''possible RPC issue - CCIPSendRequested event is not found for tx %s'' [Str txHash])),
                 stats = map (\<lambda>stat. UpdateState stat 0 CCIPSendRe (time_Since now prevEventAt) Failure None) reqStat,
                 lane_after = lane, timer_ops = ops, rest = sched\<rparr>
         else AssertEventCCIPSendRequested_loop txHash timeout prevEventAt reqStat (resetTimer + 1)
                (ops @ [Reset timeout]) lane sched)
      else
        Some \<lparr>ret = (None, now, Some (Errorf ''CCIPSendRequested event is not found for tx %s'' [Str txHash])),
              stats = map (\<lambda>stat. UpdateState stat 0 CCIPSendRe (time_Since now prevEventAt) Failure None) reqStat,
              lane_after = lane, timer_ops = ops, rest = sched\<rparr>)"

definition AssertEventCCIPSendRequested ::
  "string \<Rightarrow> Duration \<Rightarrow> time \<Rightarrow> RequestStat list \<Rightarrow> CCIPLane \<Rightarrow> select list
   \<Rightarrow> (send_requested_ret, RequestStat list) returned option" where
  "AssertEventCCIPSendRequested txHash timeout prevEventAt reqStat lane sched =
     AssertEventCCIPSendRequested_loop txHash timeout prevEventAt reqStat 0 [NewTimer timeout] lane sched"

subsection \<open>\<^verbatim>\<open>DestCCIPModule.AssertSeqNumberExecuted\<close>\<close>

fun AssertSeqNumberExecuted_loop ::
  "u64 \<Rightarrow> Duration \<Rightarrow> time \<Rightarrow> RequestStat \<Rightarrow> nat \<Rightarrow> timer_op list \<Rightarrow> CCIPLane \<Rightarrow> select list
   \<Rightarrow> (error option, RequestStat) returned option" where
  "AssertSeqNumberExecuted_loop seqNumberBefore timeout timeNow reqStat resetTimerCount ops lane [] = None"
| "AssertSeqNumberExecuted_loop seqNumberBefore timeout timeNow reqStat resetTimerCount ops lane (Interleaved f # sched) =
     (case f lane of
        None \<Rightarrow> None
      | Some lane' \<Rightarrow> AssertSeqNumberExecuted_loop seqNumberBefore timeout timeNow reqStat resetTimerCount ops lane' sched)"
| "AssertSeqNumberExecuted_loop seqNumberBefore timeout timeNow reqStat resetTimerCount ops lane (TickerC cc # sched) =
     (if NextSeqNumToCommit lane > seqNumberBefore then
        Some \<lparr>ret = None, stats = reqStat, lane_after = lane, timer_ops = ops, rest = sched\<rparr>
      else
        (case GetExpectedNextSequenceNumber cc of
           None \<Rightarrow> AssertSeqNumberExecuted_loop seqNumberBefore timeout timeNow reqStat resetTimerCount ops lane sched
         | Some seqNumberAfter \<Rightarrow>
             if seqNumberAfter > seqNumberBefore then
               Some \<lparr>ret = None, stats = reqStat, lane_after = lane\<lparr>NextSeqNumToCommit := seqNumberAfter\<rparr>,
                     timer_ops = ops, rest = sched\<rparr>
             else AssertSeqNumberExecuted_loop seqNumberBefore timeout timeNow reqStat resetTimerCount ops lane sched))"
| "AssertSeqNumberExecuted_loop seqNumberBefore timeout timeNow reqStat resetTimerCount ops lane (TimerC now # sched) =
     (if Dest_IsConnectionRestoredRecently lane = Some False then
        (if resetTimerCount > 2 then
           Some \<lparr>ret = Some (Errorf ''possible RPC issue - sequence number is not increased for seq num %d lane %d-->%d''
                              [Uint seqNumberBefore, Uint (Dest_SourceChainId lane), Num (Dest_ChainID lane)]),
                 stats = UpdateState reqStat seqNumberBefore Commit (time_Since now timeNow) Failure None,
                 lane_after = lane, timer_ops = ops, rest = sched\<rparr>
         else AssertSeqNumberExecuted_loop seqNumberBefore timeout timeNow reqStat (resetTimerCount + 1)
                (ops @ [Reset timeout]) lane sched)
      else
        Some \<lparr>ret = Some (Errorf ''sequence number is not increased for seq num %d lane %d-->%d''
                           [Uint seqNumberBefore, Uint (Dest_SourceChainId lane), Num (Dest_ChainID lane)]),
              stats = UpdateState reqStat seqNumberBefore Commit (time_Since now timeNow) Failure None,
              lane_after = lane, timer_ops = ops, rest = sched\<rparr>)"

definition AssertSeqNumberExecuted ::
  "u64 \<Rightarrow> Duration \<Rightarrow> time \<Rightarrow> RequestStat \<Rightarrow> CCIPLane \<Rightarrow> select list
   \<Rightarrow> (error option, RequestStat) returned option" where
  "AssertSeqNumberExecuted seqNumberBefore timeout timeNow reqStat lane sched =
     AssertSeqNumberExecuted_loop seqNumberBefore timeout timeNow reqStat 0 [NewTimer timeout] lane sched"

subsection \<open>\<^verbatim>\<open>DestCCIPModule.AssertEventReportAccepted\<close>\<close>

type_synonym report_accepted_ret = "CommitStoreCommitReport option \<times> time \<times> error option"

fun AssertEventReportAccepted_loop ::
  "u64 \<Rightarrow> Duration \<Rightarrow> time \<Rightarrow> RequestStat \<Rightarrow> nat \<Rightarrow> timer_op list \<Rightarrow> CCIPLane \<Rightarrow> select list
   \<Rightarrow> (report_accepted_ret, RequestStat) returned option" where
  "AssertEventReportAccepted_loop seqNum timeout prevEventAt reqStat resetTimerCount ops lane [] = None"
| "AssertEventReportAccepted_loop seqNum timeout prevEventAt reqStat resetTimerCount ops lane (Interleaved f # sched) =
     (case f lane of
        None \<Rightarrow> None
      | Some lane' \<Rightarrow> AssertEventReportAccepted_loop seqNum timeout prevEventAt reqStat resetTimerCount ops lane' sched)"
| "AssertEventReportAccepted_loop seqNum timeout prevEventAt reqStat resetTimerCount ops lane (TickerC cc # sched) =
     (case ReportAcceptedWatcher lane seqNum of
        Some (AReportAccepted reportAccepted) \<Rightarrow>
          (let receivedAt = (case HeaderByNumber cc (BlockNumber (ReportAccepted_Raw reportAccepted)) of
                               Some timestamp \<Rightarrow> timestamp
                             | None \<Rightarrow> Now cc);
               totalTime0 = time_Sub receivedAt prevEventAt;
               totalTime = (if totalTime0 < 0 then Second else totalTime0);
               gasUsed = (case GetTxReceipt cc (TxHash (ReportAccepted_Raw reportAccepted)) of
                            Some used \<Rightarrow> used
                          | None \<Rightarrow> 0)
           in Some \<lparr>ret = (Some (Report reportAccepted), receivedAt, None),
                    stats = UpdateState reqStat seqNum Commit totalTime Success
                              (Some \<lparr>TS_TxHash = TxHash (ReportAccepted_Raw reportAccepted), TS_GasUsed = gasUsed,
                                     TS_CommitRoot = MerkleRoot (Report reportAccepted),
                                     TS_FinalizedByBlock = None, TS_FinalizedAt = None\<rparr>),
                    lane_after = lane\<lparr>ReportAcceptedWatcher := (ReportAcceptedWatcher lane)(seqNum := None)\<rparr>,
                    timer_ops = ops, rest = sched\<rparr>)
      | _ \<Rightarrow> AssertEventReportAccepted_loop seqNum timeout prevEventAt reqStat resetTimerCount ops lane sched)"
| "AssertEventReportAccepted_loop seqNum timeout prevEventAt reqStat resetTimerCount ops lane (TimerC now # sched) =
     (if Dest_IsConnectionRestoredRecently lane = Some False then
        (if resetTimerCount > 2 then
           Some \<lparr>ret = (None, now,
                        Some (Errorf ''possible RPC issue - ReportAccepted is not found for seq num %d lane %d-->%d''
                                [Uint seqNum, Uint (Dest_SourceChainId lane), Num (Dest_ChainID lane)])),
                 stats = UpdateState reqStat seqNum Commit (time_Since now prevEventAt) Failure None,
                 lane_after = lane, timer_ops = ops, rest = sched\<rparr>
         else AssertEventReportAccepted_loop seqNum timeout prevEventAt reqStat (resetTimerCount + 1)
                (ops @ [Reset timeout]) lane sched)
      else
        Some \<lparr>ret = (None, now,
                     Some (Errorf ''ReportAccepted is not found for seq num %d lane %d-->%d''
                             [Uint seqNum, Uint (Dest_SourceChainId lane), Num (Dest_ChainID lane)])),
              stats = UpdateState reqStat seqNum Commit (time_Since now prevEventAt) Failure None,
              lane_after = lane, timer_ops = ops, rest = sched\<rparr>)"

definition AssertEventReportAccepted ::
  "u64 \<Rightarrow> Duration \<Rightarrow> time \<Rightarrow> RequestStat \<Rightarrow> CCIPLane \<Rightarrow> select list
   \<Rightarrow> (report_accepted_ret, RequestStat) returned option" where
  "AssertEventReportAccepted seqNum timeout prevEventAt reqStat lane sched =
     AssertEventReportAccepted_loop seqNum timeout prevEventAt reqStat 0 [NewTimer timeout] lane sched"

subsection \<open>\<^verbatim>\<open>DestCCIPModule.AssertReportBlessed\<close>\<close>

text \<open>
  The inner loop \<^verbatim>\<open>for i := Interval.Min; i <= Interval.Max; i++\<close> counts in
  \<^verbatim>\<open>uint64\<close>, where \<^verbatim>\<open>i++\<close> wraps around; it need not end, so it is a partial function.
\<close>

partial_function (option) Store_interval ::
  "u64 \<Rightarrow> u64 \<Rightarrow> any \<Rightarrow> (u64 \<rightharpoonup> any) \<Rightarrow> (u64 \<rightharpoonup> any) option" where
  "Store_interval i intervalMax vLogs bySeqNum =
     (if i \<le> intervalMax then Store_interval (i + 1) intervalMax vLogs (bySeqNum(i \<mapsto> vLogs))
      else Some bySeqNum)"

fun AssertReportBlessed_loop ::
  "u64 \<Rightarrow> Duration \<Rightarrow> CommitStoreCommitReport \<Rightarrow> time \<Rightarrow> RequestStat \<Rightarrow> nat \<Rightarrow> timer_op list
   \<Rightarrow> CCIPLane \<Rightarrow> select list \<Rightarrow> (time \<times> error option, RequestStat) returned option" where
  "AssertReportBlessed_loop seqNum timeout CommitReport prevEventAt reqStat resetTimerCount ops lane [] = None"
| "AssertReportBlessed_loop seqNum timeout CommitReport prevEventAt reqStat resetTimerCount ops lane (Interleaved f # sched) =
     (case f lane of
        None \<Rightarrow> None
      | Some lane' \<Rightarrow>
          AssertReportBlessed_loop seqNum timeout CommitReport prevEventAt reqStat resetTimerCount ops lane' sched)"
| "AssertReportBlessed_loop seqNum timeout CommitReport prevEventAt reqStat resetTimerCount ops lane (TickerC cc # sched) =
     (let foundAsRoot = (ReportBlessedWatcher lane (MerkleRoot CommitReport) \<noteq> None);
          loaded = (if foundAsRoot then ReportBlessedWatcher lane (MerkleRoot CommitReport)
                    else ReportBlessedBySeqNum lane seqNum)
      in case loaded of
           Some (ALog vLogs) \<Rightarrow>
             (case (if foundAsRoot then
                      map_option
                        (\<lambda>bySeqNum. lane\<lparr>ReportBlessedBySeqNum := bySeqNum,
                                          ReportBlessedWatcher :=
                                            (ReportBlessedWatcher lane)(MerkleRoot CommitReport := None)\<rparr>)
                        (Store_interval (Interval_Min CommitReport) (Interval_Max CommitReport) (ALog vLogs)
                           (ReportBlessedBySeqNum lane))
                    else Some (lane\<lparr>ReportBlessedBySeqNum := (ReportBlessedBySeqNum lane)(seqNum := None)\<rparr>)) of
                None \<Rightarrow> None
              | Some lane' \<Rightarrow>
                  (let receivedAt = (case HeaderByNumber cc (BlockNumber vLogs) of
                                       Some timestamp \<Rightarrow> timestamp
                                     | None \<Rightarrow> Now cc);
                       gasUsed = (case GetTxReceipt cc (TxHash vLogs) of Some used \<Rightarrow> used | None \<Rightarrow> 0)
                   in Some \<lparr>ret = (receivedAt, None),
                            stats = UpdateState reqStat seqNum ReportBlessed (time_Sub receivedAt prevEventAt) Success
                                      (Some \<lparr>TS_TxHash = TxHash vLogs, TS_GasUsed = gasUsed,
                                             TS_CommitRoot = MerkleRoot CommitReport,
                                             TS_FinalizedByBlock = None, TS_FinalizedAt = None\<rparr>),
                            lane_after = lane', timer_ops = ops, rest = sched\<rparr>))
         | _ \<Rightarrow> AssertReportBlessed_loop seqNum timeout CommitReport prevEventAt reqStat resetTimerCount ops lane sched)"
| "AssertReportBlessed_loop seqNum timeout CommitReport prevEventAt reqStat resetTimerCount ops lane (TimerC now # sched) =
     (if Dest_IsConnectionRestoredRecently lane = Some False then
        (if resetTimerCount > 2 then
           Some \<lparr>ret = (now,
                        Some (Errorf ''possible RPC issue - ReportBlessed is not found for interval %+v lane %d-->%d''
                                [Interval (Interval_Min CommitReport) (Interval_Max CommitReport),
                                 Uint (Dest_SourceChainId lane), Num (Dest_ChainID lane)])),
                 stats = UpdateState reqStat seqNum ReportBlessed (time_Since now prevEventAt) Failure None,
                 lane_after = lane, timer_ops = ops, rest = sched\<rparr>
         else AssertReportBlessed_loop seqNum timeout CommitReport prevEventAt reqStat (resetTimerCount + 1)
                (ops @ [Reset timeout]) lane sched)
      else
        Some \<lparr>ret = (now,
                     Some (Errorf ''ReportBlessed is not found for interval %+v lane %d-->%d''
                             [Interval (Interval_Min CommitReport) (Interval_Max CommitReport),
                              Uint (Dest_SourceChainId lane), Num (Dest_ChainID lane)])),
              stats = UpdateState reqStat seqNum ReportBlessed (time_Since now prevEventAt) Failure None,
              lane_after = lane, timer_ops = ops, rest = sched\<rparr>)"

definition AssertReportBlessed ::
  "u64 \<Rightarrow> Duration \<Rightarrow> CommitStoreCommitReport \<Rightarrow> time \<Rightarrow> RequestStat \<Rightarrow> CCIPLane \<Rightarrow> select list
   \<Rightarrow> (time \<times> error option, RequestStat) returned option" where
  "AssertReportBlessed seqNum timeout CommitReport prevEventAt reqStat lane sched =
     (if \<not> Dest_ARM lane then
        Some \<lparr>ret = (prevEventAt, None), stats = reqStat, lane_after = lane, timer_ops = [], rest = sched\<rparr>
      else AssertReportBlessed_loop seqNum timeout CommitReport prevEventAt reqStat 0 [NewTimer timeout] lane sched)"

subsection \<open>\<^verbatim>\<open>DestCCIPModule.AssertEventExecutionStateChanged\<close>\<close>

fun AssertEventExecutionStateChanged_loop ::
  "u64 \<Rightarrow> Duration \<Rightarrow> time \<Rightarrow> RequestStat \<Rightarrow> 8 word \<Rightarrow> nat \<Rightarrow> timer_op list \<Rightarrow> CCIPLane \<Rightarrow> select list
   \<Rightarrow> (8 word \<times> error option, RequestStat) returned option" where
  "AssertEventExecutionStateChanged_loop seqNum timeout timeNow reqStat execState resetTimer ops lane [] = None"
| "AssertEventExecutionStateChanged_loop seqNum timeout timeNow reqStat execState resetTimer ops lane (Interleaved f # sched) =
     (case f lane of
        None \<Rightarrow> None
      | Some lane' \<Rightarrow>
          AssertEventExecutionStateChanged_loop seqNum timeout timeNow reqStat execState resetTimer ops lane' sched)"
| "AssertEventExecutionStateChanged_loop seqNum timeout timeNow reqStat execState resetTimer ops lane (TickerC cc # sched) =
     (case ExecStateChangedWatcher lane seqNum of
        Some (AExecutionStateChanged e) \<Rightarrow>
          (let lane' = lane\<lparr>ExecStateChangedWatcher := (ExecStateChangedWatcher lane)(seqNum := None)\<rparr>;
               vLogs = ExecutionStateChanged_Raw e;
               receivedAt = (case HeaderByNumber cc (BlockNumber vLogs) of
                               Some timestamp \<Rightarrow> timestamp
                             | None \<Rightarrow> Now cc);
               gasUsed = (case GetTxReceipt cc (TxHash vLogs) of Some used \<Rightarrow> used | None \<Rightarrow> 0)
           in if State e = execState then
                Some \<lparr>ret = (State e, None),
                      stats = UpdateState reqStat seqNum ExecStateChanged (time_Sub receivedAt timeNow) Success
                                (Some \<lparr>TS_TxHash = TxHash vLogs, TS_GasUsed = gasUsed, TS_CommitRoot = [],
                                       TS_FinalizedByBlock = None, TS_FinalizedAt = None\<rparr>),
                      lane_after = lane', timer_ops = ops, rest = sched\<rparr>
              else
                Some \<lparr>ret = (State e,
                             Some (Errorf ''ExecutionStateChanged event state - expected %d actual - %d with data %x for seq num %v for lane %d-->%d''
                                     [Byte execState, Byte (State e), Bytes (ReturnData e), Uint seqNum,
                                      Uint (Dest_SourceChainId lane), Num (Dest_ChainID lane)])),
                      stats = UpdateState reqStat seqNum ExecStateChanged (time_Since (Now cc) timeNow) Failure None,
                      lane_after = lane', timer_ops = ops, rest = sched\<rparr>)
      | _ \<Rightarrow> AssertEventExecutionStateChanged_loop seqNum timeout timeNow reqStat execState resetTimer ops lane sched)"
| "AssertEventExecutionStateChanged_loop seqNum timeout timeNow reqStat execState resetTimer ops lane (TimerC now # sched) =
     (if Dest_IsConnectionRestoredRecently lane = Some False then
        (if resetTimer > 2 then
           Some \<lparr>ret = (0,
                        Some (Errorf ''possible RPC issues - ExecutionStateChanged event not found for seq num %d for lane %d-->%d''
                                [Uint seqNum, Uint (Dest_SourceChainId lane), Num (Dest_ChainID lane)])),
                 stats = UpdateState reqStat seqNum ExecStateChanged (time_Since now timeNow) Failure None,
                 lane_after = lane, timer_ops = ops, rest = sched\<rparr>
         else AssertEventExecutionStateChanged_loop seqNum timeout timeNow reqStat execState (resetTimer + 1)
                (ops @ [Reset timeout]) lane sched)
      else
        Some \<lparr>ret = (0,
                     Some (Errorf ''ExecutionStateChanged event not found for seq num %d for lane %d-->%d''
                             [Uint seqNum, Uint (Dest_SourceChainId lane), Num (Dest_ChainID lane)])),
              stats = UpdateState reqStat seqNum ExecStateChanged (time_Since now timeNow) Failure None,
              lane_after = lane, timer_ops = ops, rest = sched\<rparr>)"

definition AssertEventExecutionStateChanged ::
  "u64 \<Rightarrow> Duration \<Rightarrow> time \<Rightarrow> RequestStat \<Rightarrow> 8 word \<Rightarrow> CCIPLane \<Rightarrow> select list
   \<Rightarrow> (8 word \<times> error option, RequestStat) returned option" where
  "AssertEventExecutionStateChanged seqNum timeout timeNow reqStat execState lane sched =
     AssertEventExecutionStateChanged_loop seqNum timeout timeNow reqStat execState 0 [NewTimer timeout] lane sched"

subsection \<open>\<^verbatim>\<open>SourceCCIPModule.AssertSendRequestedLogFinalized\<close>\<close>

text \<open>
  This wait has no loop of its own: it blocks in \<^verbatim>\<open>ChainClient.WaitForFinalizedTx\<close>, a
  call of the chain client. Its answer (the block number, which may be nil, the
  timestamp, the error) and the clock reading after it are the argument \<open>answer\<close>.
  \<^verbatim>\<open>(*big.Int).Uint64\<close> gives the low 64 bits of the magnitude of the number.
\<close>

record finalized_tx =
  finalizedBlockNum :: "int option"
  finalizedAt :: time
  WaitForFinalizedTx_err :: "error option"
  returned_at :: time

definition AssertSendRequestedLogFinalized ::
  "hash \<Rightarrow> time \<Rightarrow> RequestStat list \<Rightarrow> finalized_tx \<Rightarrow> (time \<times> u64 \<times> error option) \<times> RequestStat list" where
  "AssertSendRequestedLogFinalized txHash prevEventAt reqStats answer =
     (case (WaitForFinalizedTx_err answer, finalizedBlockNum answer) of
        (None, Some blockNum) \<Rightarrow>
          ((finalizedAt answer, word_of_int \<bar>blockNum\<bar>, None),
           map (\<lambda>stat. UpdateState stat (SeqNum stat) SourceLogFinalized
                          (time_Sub (finalizedAt answer) prevEventAt) Success
                          (Some \<lparr>TS_TxHash = txHash, TS_GasUsed = 0, TS_CommitRoot = [],
                                 TS_FinalizedByBlock = Some blockNum,
                                 TS_FinalizedAt = Some (finalizedAt answer)\<rparr>)) reqStats)
      | (err, _) \<Rightarrow>
          ((zero_Time, 0,
            Some (Errorf ''error waiting for CCIPSendRequested event log to be finalized - %w'' [Wrapped err])),
           map (\<lambda>stat. UpdateState stat (SeqNum stat) SourceLogFinalized
                          (time_Since (returned_at answer) prevEventAt) Failure None) reqStats))"

section \<open>The subscription callbacks and the connection monitor\<close>

text \<open>
  Modelled from the spec: \<^verbatim>\<open>testutils.DeleteNilEntriesFromMap\<close> is outside the given
  sources; as its name says, it returns the map without the entries whose value is nil.
\<close>

definition DeleteNilEntriesFromMap :: "('k \<rightharpoonup> any) \<Rightarrow> ('k \<rightharpoonup> any)" where
  "DeleteNilEntriesFromMap m = (\<lambda>k. case m k of Some ANil \<Rightarrow> None | v \<Rightarrow> v)"

text \<open>
  The four \<^verbatim>\<open>case e := <-...Event\<close> branches of the goroutines that
  \<^verbatim>\<open>StartEventWatchers\<close> starts. A callback that does not complete gives \<open>None\<close>: the
  type assertion on the stored slice has no \<^verbatim>\<open>ok\<close> result and panics on another type,
  and the loop over the interval of a report counts in \<^verbatim>\<open>uint64\<close>.
\<close>

definition on_CCIPSendRequested :: "EVM2EVMOnRampCCIPSendRequested \<Rightarrow> CCIPLane \<Rightarrow> CCIPLane option" where
  "on_CCIPSendRequested e lane =
     (let key = TxHash (SendRequested_Raw e) in
        case CCIPSendRequestedWatcher lane key of
          Some eventsForTx \<Rightarrow>
            (case eventsForTx of
               ASendRequested events \<Rightarrow>
                 Some (lane\<lparr>CCIPSendRequestedWatcher :=
                         DeleteNilEntriesFromMap ((CCIPSendRequestedWatcher lane)(key \<mapsto> ASendRequested (events @ [e])))\<rparr>)
             | _ \<Rightarrow> None)
        | None \<Rightarrow>
            Some (lane\<lparr>CCIPSendRequestedWatcher :=
                    DeleteNilEntriesFromMap ((CCIPSendRequestedWatcher lane)(key \<mapsto> ASendRequested [e]))\<rparr>))"

definition on_ReportAccepted :: "CommitStoreReportAccepted \<Rightarrow> CCIPLane \<Rightarrow> CCIPLane option" where
  "on_ReportAccepted e lane =
     map_option (\<lambda>watcher. lane\<lparr>ReportAcceptedWatcher := DeleteNilEntriesFromMap watcher\<rparr>)
       (Store_interval (Interval_Min (Report e)) (Interval_Max (Report e)) (AReportAccepted e)
          (ReportAcceptedWatcher lane))"

definition on_TaggedRootBlessed :: "ARMContractTaggedRootBlessed \<Rightarrow> CCIPLane \<Rightarrow> CCIPLane option" where
  "on_TaggedRootBlessed e lane =
     (let watcher = (if TaggedRoot_CommitStore e = Dest_CommitStore_EthAddress lane
                     then (ReportBlessedWatcher lane)(TaggedRoot_Root e \<mapsto> ALog (TaggedRootBlessed_Raw e))
                     else ReportBlessedWatcher lane)
      in Some (lane\<lparr>ReportBlessedWatcher := DeleteNilEntriesFromMap watcher\<rparr>))"

definition on_ExecutionStateChanged :: "EVM2EVMOffRampExecutionStateChanged \<Rightarrow> CCIPLane \<Rightarrow> CCIPLane option" where
  "on_ExecutionStateChanged e lane =
     Some (lane\<lparr>ExecStateChangedWatcher :=
             DeleteNilEntriesFromMap ((ExecStateChangedWatcher lane)(ESC_SequenceNumber e \<mapsto> AExecutionStateChanged e))\<rparr>)"

text \<open>
  \<^verbatim>\<open>CCIPCommon.PollRPCConnection\<close>: what one message on the \<^verbatim>\<open>ConnectionRestored\<close> or
  the \<^verbatim>\<open>ConnectionIssue\<close> channel does to the flag of that chain.
\<close>

definition PollRPCConnection_restored :: "bool option \<Rightarrow> bool option" where
  "PollRPCConnection_restored flag = (case flag of None \<Rightarrow> Some True | Some _ \<Rightarrow> Some True)"

definition PollRPCConnection_issue :: "bool option \<Rightarrow> bool option" where
  "PollRPCConnection_issue flag = (case flag of None \<Rightarrow> Some False | Some _ \<Rightarrow> Some False)"

section \<open>\<^verbatim>\<open>CCIPLane.ValidateRequestByTxHash\<close>\<close>

record CCIPRequest =
  Req_ReqNo :: int
  Req_txHash :: string
  txConfirmationTimestamp :: time
  Req_RequestStat :: RequestStat

text \<open>
  The calls of the phase waits are recorded in the order in which the function makes
  them, each with the error that the wait returned.
\<close>

datatype wait =
    Send
  | SourceFinalized
  | DestSeqIncrement u64
  | ReportAccepted u64
  | ReportBlessedWait u64
  | ExecutionStateChanged u64

type_synonym call = "wait \<times> error option"

record validated =
  err :: "error option"
  reqStats_after :: "RequestStat list"
  lane_end :: CCIPLane
  calls :: "call list"
  unconsumed :: "select list"

text \<open>
  The inner \<^verbatim>\<open>for _, stat := range reqStats\<close> with its \<^verbatim>\<open>break\<close>: the position of the
  first statistics whose sequence number is the one looked for. The statistics are
  pointers in the source; what a wait writes through the pointer is written back at
  that position.
\<close>

fun find_reqStat :: "u64 \<Rightarrow> RequestStat list \<Rightarrow> nat option" where
  "find_reqStat seqNumber [] = None"
| "find_reqStat seqNumber (stat # reqStats) =
     (if SeqNum stat = seqNumber then Some 0 else map_option Suc (find_reqStat seqNumber reqStats))"

fun ValidateRequestByTxHash_msgLogs ::
  "Duration \<Rightarrow> time \<Rightarrow> 8 word \<Rightarrow> EVM2EVMOnRampCCIPSendRequested list \<Rightarrow> RequestStat list \<Rightarrow> CCIPLane
   \<Rightarrow> call list \<Rightarrow> select list \<Rightarrow> validated option" where
  "ValidateRequestByTxHash_msgLogs ValidationTimeout sourceLogFinalizedAt execState [] reqStats lane cs sched =
     Some \<lparr>err = None, reqStats_after = reqStats, lane_end = lane, calls = cs, unconsumed = sched\<rparr>"
| "ValidateRequestByTxHash_msgLogs ValidationTimeout sourceLogFinalizedAt execState (msgLog # msgLogs) reqStats lane cs sched =
     (let seqNumber = Message_SequenceNumber msgLog in
      case find_reqStat seqNumber reqStats of
        None \<Rightarrow>
          Some \<lparr>err = Some (Errorf ''could not find request stat for seq number %d'' [Uint seqNumber]),
                reqStats_after = reqStats, lane_end = lane, calls = cs, unconsumed = sched\<rparr>
      | Some i \<Rightarrow>
          (case AssertSeqNumberExecuted seqNumber ValidationTimeout sourceLogFinalizedAt (reqStats ! i) lane sched of
             None \<Rightarrow> None
           | Some r1 \<Rightarrow>
               (let reqStats1 = reqStats[i := stats r1];
                    cs1 = cs @ [(DestSeqIncrement seqNumber, ret r1)]
                in if ret r1 \<noteq> None then
                     Some \<lparr>err = Some (Errorf ''could not validate seq number increase at commit store: %w'' [Wrapped (ret r1)]),
                           reqStats_after = reqStats1, lane_end = lane_after r1, calls = cs1, unconsumed = rest r1\<rparr>
                   else
                     (case AssertEventReportAccepted seqNumber ValidationTimeout sourceLogFinalizedAt (reqStats1 ! i)
                             (lane_after r1) (rest r1) of
                        None \<Rightarrow> None
                      | Some r2 \<Rightarrow>
                          (case ret r2 of (commitReport, reportAcceptedAt, err2) \<Rightarrow>
                             (let reqStats2 = reqStats1[i := stats r2];
                                  cs2 = cs1 @ [(ReportAccepted seqNumber, err2)]
                              in case (err2, commitReport) of
                                   (None, Some report) \<Rightarrow>
                                     (case AssertReportBlessed seqNumber ValidationTimeout report reportAcceptedAt
                                             (reqStats2 ! i) (lane_after r2) (rest r2) of
                                        None \<Rightarrow> None
                                      | Some r3 \<Rightarrow>
                                          (case ret r3 of (reportBlessedAt, err3) \<Rightarrow>
                                             (let reqStats3 = reqStats2[i := stats r3];
                                                  cs3 = cs2 @ [(ReportBlessedWait seqNumber, err3)]
                                              in if err3 \<noteq> None then
                                                   Some \<lparr>err = Some (Errorf ''could not validate ReportBlessed event: %w'' [Wrapped err3]),
                                                         reqStats_after = reqStats3, lane_end = lane_after r3,
                                                         calls = cs3, unconsumed = rest r3\<rparr>
                                                 else
                                                   (case AssertEventExecutionStateChanged seqNumber ValidationTimeout
                                                           reportBlessedAt (reqStats3 ! i) execState (lane_after r3) (rest r3) of
                                                      None \<Rightarrow> None
                                                    | Some r4 \<Rightarrow>
                                                        (let reqStats4 = reqStats3[i := stats r4];
                                                             cs4 = cs3 @ [(ExecutionStateChanged seqNumber, snd (ret r4))]
                                                         in if snd (ret r4) \<noteq> None then
                                                              Some \<lparr>err = Some (Errorf ''could not validate ExecutionStateChanged event: %w''
                                                                                  [Wrapped (snd (ret r4))]),
                                                                    reqStats_after = reqStats4, lane_end = lane_after r4,
                                                                    calls = cs4, unconsumed = rest r4\<rparr>
                                                            else ValidateRequestByTxHash_msgLogs ValidationTimeout
                                                                   sourceLogFinalizedAt execState msgLogs reqStats4
                                                                   (lane_after r4) cs4 (rest r4))))))
                                 | _ \<Rightarrow>
                                     Some \<lparr>err = Some (Errorf ''could not validate ReportAccepted event: %w'' [Wrapped err2]),
                                           reqStats_after = reqStats2, lane_end = lane_after r2,
                                           calls = cs2, unconsumed = rest r2\<rparr>))))))"

text \<open>
  The function itself. \<^verbatim>\<open>require.Greater\<close> stops the test when no request was sent
  with the transaction. \<open>ccipRequests\<close> is \<^verbatim>\<open>lane.SentReqs[txHash]\<close> and \<open>answer\<close> what
  \<^verbatim>\<open>WaitForFinalizedTx\<close> gives. The deferred loop only hands the statistics to the
  reporter of the lane, which is outside the given sources, and is left out.
\<close>

definition ValidateRequestByTxHash ::
  "Duration \<Rightarrow> CCIPRequest list \<Rightarrow> hash \<Rightarrow> 8 word \<Rightarrow> finalized_tx \<Rightarrow> T \<Rightarrow> CCIPLane \<Rightarrow> select list
   \<Rightarrow> validated run option" where
  "ValidateRequestByTxHash ValidationTimeout ccipRequests txHash execState answer t lane sched =
     (case ccipRequests of
        [] \<Rightarrow> Some (Goexit (t @ [Errorf ''no ccip requests found for tx hash'' []]))
      | first # _ \<Rightarrow>
          (let txConfirmation = txConfirmationTimestamp first;
               reqStats = map Req_RequestStat ccipRequests
           in case AssertEventCCIPSendRequested txHash ValidationTimeout txConfirmation reqStats lane sched of
                None \<Rightarrow> None
              | Some r0 \<Rightarrow>
                  (case ret r0 of (msgLogs, ccipSendReqGenAt, err0) \<Rightarrow>
                     (let cs0 = [(Send, err0)] in
                      case (err0, msgLogs) of
                        (None, Some logs) \<Rightarrow>
                          (case AssertSendRequestedLogFinalized txHash ccipSendReqGenAt (stats r0) answer of
                             ((sourceLogFinalizedAt, _, err1), reqStats1) \<Rightarrow>
                               (let cs1 = cs0 @ [(SourceFinalized, err1)] in
                                if err1 \<noteq> None then
                                  Some (Return \<lparr>err = Some (Errorf ''could not finalize CCIPSendRequested event: %w'' [Wrapped err1]),
                                                reqStats_after = reqStats1, lane_end = lane_after r0,
                                                calls = cs1, unconsumed = rest r0\<rparr> t)
                                else
                                  map_option (\<lambda>v. Return v t)
                                    (ValidateRequestByTxHash_msgLogs ValidationTimeout sourceLogFinalizedAt execState
                                       logs reqStats1 (lane_after r0) cs1 (rest r0))))
                      | _ \<Rightarrow>
                          Some (Return \<lparr>err = Some (Errorf ''could not validate CCIPSendRequested event: %w'' [Wrapped err0]),
                                        reqStats_after = stats r0, lane_end = lane_after r0,
                                        calls = cs0, unconsumed = rest r0\<rparr> t)))))"

section \<open>Notions used to state the properties\<close>

text \<open>
  The definitions of this section follow the words of the specification; the theorems
  compare them with the functions above.
\<close>

subsection \<open>Balance sheet\<close>

text \<open>A nil amount counts as zero.\<close>

definition nz :: "int option \<Rightarrow> int" where
  "nz a = (case a of None \<Rightarrow> 0 | Some v \<Rightarrow> v)"

text \<open>The expected balance of a tracked key: \<open>prev + totalAdd - totalSub\<close>.\<close>

definition expected_balance :: "BalanceSheet \<Rightarrow> string \<Rightarrow> int" where
  "expected_balance b key =
     (case (Items b key, PrevBalance b key) of
        (Some item, Some prev) \<Rightarrow> prev + nz (AmtToAdd item) - nz (AmtToSub item)
      | _ \<Rightarrow> 0)"

text \<open>
  The failures that the check of one key records: none when the getter returns the
  expected balance.
\<close>

definition balance_failures :: "BalanceSheet \<Rightarrow> string \<Rightarrow> error list" where
  "balance_failures b key =
     (case Items b key of
        None \<Rightarrow> []
      | Some item \<Rightarrow>
          (let actual = Getter item (Address item) in
             (if actual = None then [Errorf ''%v getter return nil'' [Str key]] else []) @
             (if actual = Some (expected_balance b key) then []
              else [Errorf ''wrong balance for %s got %s want %s''
                      [Str key, Str (big_String actual), Str (int_String (expected_balance b key))]])))"

text \<open>The assertion that \<^verbatim>\<open>Verify\<close> builds for one key of the items.\<close>

definition assertion_of :: "BalanceSheet \<Rightarrow> string \<Rightarrow> BalanceAssertion list" where
  "assertion_of b key =
     (case Items b key of
        None \<Rightarrow> []
      | Some item \<Rightarrow>
          [\<lparr>Name = key, BA_Address = Address item, BA_Getter = Getter item,
            Expected = int_String (expected_balance b key), Within = []\<rparr>])"

subsection \<open>Runs of a wait\<close>

text \<open>
  The classification of a timeout error: the messages of the retried outage path begin
  with \<^verbatim>\<open>possible RPC issue\<close>; every other timeout error reports the absence of the
  event.
\<close>

definition possible_RPC_issue :: "error \<Rightarrow> bool" where
  "possible_RPC_issue e = (case e of Errorf f _ \<Rightarrow> prefix ''possible RPC issue'' f)"

text \<open>The number of times the timer fires in a run.\<close>

fun firings :: "select list \<Rightarrow> nat" where
  "firings [] = 0"
| "firings (TimerC now # sched) = Suc (firings sched)"
| "firings (_ # sched) = firings sched"

text \<open>
  A run during an outage that never ends: every step of the other goroutines
  completes, no tick finds what the wait looks for (\<open>found\<close>), and at every firing of
  the timer the flag of the chain (\<open>flag\<close>) says that the connection was not restored.
\<close>

fun outage ::
  "(CCIPLane \<Rightarrow> bool option) \<Rightarrow> (CCIPLane \<Rightarrow> chain_client \<Rightarrow> bool) \<Rightarrow> CCIPLane \<Rightarrow> select list \<Rightarrow> bool" where
  "outage flag found lane [] = True"
| "outage flag found lane (Interleaved f # sched) =
     (case f lane of None \<Rightarrow> False | Some lane' \<Rightarrow> outage flag found lane' sched)"
| "outage flag found lane (TickerC cc # sched) = (\<not> found lane cc \<and> outage flag found lane sched)"
| "outage flag found lane (TimerC now # sched) = (flag lane = Some False \<and> outage flag found lane sched)"

text \<open>What each wait looks for at a tick.\<close>

definition CCIPSendRequested_present :: "string \<Rightarrow> nat \<Rightarrow> CCIPLane \<Rightarrow> chain_client \<Rightarrow> bool" where
  "CCIPSendRequested_present txHash n lane cc =
     (case CCIPSendRequestedWatcher lane txHash of
        Some (ASendRequested sendRequestedEvents) \<Rightarrow> length sendRequestedEvents = n
      | _ \<Rightarrow> False)"

definition SeqNumber_increased :: "u64 \<Rightarrow> CCIPLane \<Rightarrow> chain_client \<Rightarrow> bool" where
  "SeqNumber_increased seqNumberBefore lane cc =
     (NextSeqNumToCommit lane > seqNumberBefore \<or>
      (case GetExpectedNextSequenceNumber cc of Some seqNumberAfter \<Rightarrow> seqNumberAfter > seqNumberBefore | None \<Rightarrow> False))"

definition ReportAccepted_present :: "u64 \<Rightarrow> CCIPLane \<Rightarrow> chain_client \<Rightarrow> bool" where
  "ReportAccepted_present seqNum lane cc =
     (case ReportAcceptedWatcher lane seqNum of Some (AReportAccepted _) \<Rightarrow> True | _ \<Rightarrow> False)"

definition ReportBlessed_present :: "u64 \<Rightarrow> hash \<Rightarrow> CCIPLane \<Rightarrow> chain_client \<Rightarrow> bool" where
  "ReportBlessed_present seqNum root lane cc =
     (case (if ReportBlessedWatcher lane root \<noteq> None then ReportBlessedWatcher lane root
            else ReportBlessedBySeqNum lane seqNum) of
        Some (ALog _) \<Rightarrow> True
      | _ \<Rightarrow> False)"

definition ExecutionStateChanged_present :: "u64 \<Rightarrow> CCIPLane \<Rightarrow> chain_client \<Rightarrow> bool" where
  "ExecutionStateChanged_present seqNum lane cc =
     (case ExecStateChangedWatcher lane seqNum of Some (AExecutionStateChanged _) \<Rightarrow> True | _ \<Rightarrow> False)"

definition recorded_Failure :: "Phase \<Rightarrow> RequestStat \<Rightarrow> bool" where
  "recorded_Failure phase stat =
     (StatusLog stat \<noteq> [] \<and> PS_Phase (last (StatusLog stat)) = phase \<and>
      PS_Status (last (StatusLog stat)) = Failure)"


subsection \<open>The order of the phase waits\<close>

text \<open>
  The waits of the destination chain for the messages of a transaction, message by
  message, and the whole fixed order
  Send, SourceFinalized, then for each message DestSeqIncrement, ReportAccepted,
  ReportBlessed, ExecutionStateChanged. \<open>sent_msgLogs\<close> are the messages that the
  send-requested wait returned, and a call succeeded when the wait returned no error.
\<close>

definition dest_calls :: "EVM2EVMOnRampCCIPSendRequested list \<Rightarrow> wait list" where
  "dest_calls msgLogs =
     concat (map (\<lambda>msgLog. [DestSeqIncrement (Message_SequenceNumber msgLog),
                             ReportAccepted (Message_SequenceNumber msgLog),
                             ReportBlessedWait (Message_SequenceNumber msgLog),
                             ExecutionStateChanged (Message_SequenceNumber msgLog)]) msgLogs)"

definition expected_calls :: "EVM2EVMOnRampCCIPSendRequested list \<Rightarrow> wait list" where
  "expected_calls msgLogs = [Send, SourceFinalized] @ dest_calls msgLogs"

definition sent_msgLogs :: "(send_requested_ret, RequestStat list) returned \<Rightarrow> EVM2EVMOnRampCCIPSendRequested list" where
  "sent_msgLogs r0 = (case fst (ret r0) of Some msgLogs \<Rightarrow> msgLogs | None \<Rightarrow> [])"

definition succeeded :: "call \<Rightarrow> bool" where
  "succeeded c = (snd c = None)"


text \<open>
  The marks of a request: the phase and the status of every entry of its status log,
  oldest first.
\<close>

definition marks :: "RequestStat \<Rightarrow> (Phase \<times> Status) list" where
  "marks stat = map (\<lambda>p. (PS_Phase p, PS_Status p)) (StatusLog stat)"

text \<open>
  The state machine of a request in the specification, read on the marks. A phase can
  be marked only in the state that awaits it, so it is marked Success only after its
  predecessor was; a Failure ends the request and nothing is marked after it. The wait
  for the increase of the sequence number marks nothing when it succeeds, so the state
  that awaits it also takes the marks of the accepted report, which has the same phase
  name. The argument \<open>arm\<close> says what is known of the ARM contract of the lane: with a
  real one (\<open>Some True\<close>) the execution can be marked only after the blessing, with a
  mock (\<open>Some False\<close>) the blessing is never marked, and \<open>None\<close> allows both. A
  completed request awaits the sequence number again, for a transaction whose messages
  name its sequence number twice.
\<close>

datatype tracker =
    AwaitingSendConfirmed
  | AwaitingSourceFinalized
  | AwaitingDestSeqIncrement
  | AwaitingReportBlessed
  | AwaitingExecutionState
  | Completed
  | Failed

definition closing :: "Status \<Rightarrow> tracker \<Rightarrow> tracker option" where
  "closing status next = (case status of Success \<Rightarrow> Some next | Failure \<Rightarrow> Some Failed | Pending \<Rightarrow> None)"

fun step :: "bool option \<Rightarrow> tracker \<Rightarrow> Phase \<times> Status \<Rightarrow> tracker option" where
  "step arm AwaitingSendConfirmed (phase, status) =
     (if phase = CCIPSendRe then closing status AwaitingSourceFinalized else None)"
| "step arm AwaitingSourceFinalized (phase, status) =
     (if phase = SourceLogFinalized then closing status AwaitingDestSeqIncrement else None)"
| "step arm AwaitingDestSeqIncrement (phase, status) =
     (if phase = Commit then closing status AwaitingReportBlessed else None)"
| "step arm AwaitingReportBlessed (phase, status) =
     (if phase = ReportBlessed \<and> arm \<noteq> Some False then closing status AwaitingExecutionState
      else if phase = ExecStateChanged \<and> arm \<noteq> Some True then closing status Completed
      else None)"
| "step arm AwaitingExecutionState (phase, status) =
     (if phase = ExecStateChanged then closing status Completed else None)"
| "step arm Completed (phase, status) =
     (if phase = Commit then closing status AwaitingReportBlessed else None)"
| "step arm Failed (phase, status) = None"

fun track :: "bool option \<Rightarrow> tracker \<Rightarrow> (Phase \<times> Status) list \<Rightarrow> tracker option" where
  "track arm state [] = Some state"
| "track arm state (mark # ms) =
     (case step arm state mark of None \<Rightarrow> None | Some state' \<Rightarrow> track arm state' ms)"

text \<open>
  The states in which the validation of a transaction may end without error: every
  round of a message that named the request was completed, or no message did.
\<close>

definition awaiting_dest :: "tracker \<Rightarrow> bool" where
  "awaiting_dest state = (state = AwaitingDestSeqIncrement \<or> state = Completed)"

text \<open>
  The steps of the other goroutines in a run leave the ARM contract of the lane as it
  is, as every goroutine of the source does: the field is written only when the
  contracts are deployed or loaded.
\<close>

definition keeps_ARM :: "select list \<Rightarrow> bool" where
  "keeps_ARM sched =
     list_all (\<lambda>s. case s of
                      Interleaved f \<Rightarrow> (\<forall>lane lane'. f lane = Some lane' \<longrightarrow> Dest_ARM lane' = Dest_ARM lane)
                    | _ \<Rightarrow> True) sched"

text \<open>
  What is known of the ARM contract during a run: its value at the start when the run
  keeps it.
\<close>

definition known_ARM :: "bool option \<Rightarrow> CCIPLane \<Rightarrow> select list \<Rightarrow> bool" where
  "known_ARM arm lane sched = (arm = None \<or> (arm = Some (Dest_ARM lane) \<and> keeps_ARM sched))"

subsection \<open>Concrete inputs of the witnesses\<close>

text \<open>
  A lane with empty watcher stores, as \<^verbatim>\<open>DefaultSourceCCIPModule\<close> and
  \<^verbatim>\<open>DefaultDestinationCCIPModule\<close> build it (the next sequence number to commit starts
  at 1), with a real ARM contract and no connection event seen yet; the same lane with
  a mock ARM contract; a chain client that answers nothing; a request that has no
  status yet.
\<close>

definition fresh_lane :: CCIPLane where
  "fresh_lane =
     \<lparr>CCIPSendRequestedWatcher = Map.empty, Source_IsConnectionRestoredRecently = None,
      ReportAcceptedWatcher = Map.empty, ExecStateChangedWatcher = Map.empty,
      ReportBlessedWatcher = Map.empty, ReportBlessedBySeqNum = Map.empty,
      NextSeqNumToCommit = 1, Dest_IsConnectionRestoredRecently = None,
      Dest_ARM = True, Dest_CommitStore_EthAddress = ''0xC5'', Dest_SourceChainId = 1337, Dest_ChainID = 2337\<rparr>"

definition outage_lane :: CCIPLane where
  "outage_lane =
     fresh_lane\<lparr>Source_IsConnectionRestoredRecently := PollRPCConnection_issue None,
                Dest_IsConnectionRestoredRecently := PollRPCConnection_issue None\<rparr>"

definition mock_lane :: CCIPLane where
  "mock_lane = fresh_lane\<lparr>Dest_ARM := False\<rparr>"

definition silent_client :: "time \<Rightarrow> chain_client" where
  "silent_client now =
     \<lparr>Now = now, HeaderByNumber = (\<lambda>_. None), GetTxReceipt = (\<lambda>_. None),
      GetExpectedNextSequenceNumber = None\<rparr>"

definition new_stat :: "int \<Rightarrow> RequestStat" where
  "new_stat n = \<lparr>ReqNo = n, SeqNum = 0, StatusLog = []\<rparr>"

text \<open>
  One request, sequence number 7, sent with transaction \<^verbatim>\<open>0xabc\<close>; the commit report
  and the blessing of the root cover the interval from 5 to 9. In \<open>complete_run\<close> every
  event arrives; in \<open>failing_run\<close> no report is accepted and the timer fires while the
  connection is healthy.
\<close>

definition example_send :: EVM2EVMOnRampCCIPSendRequested where
  "example_send = \<lparr>Message_SequenceNumber = 7, SendRequested_Raw = \<lparr>BlockNumber = 10, TxHash = ''0xabc''\<rparr>\<rparr>"

definition example_accepted :: CommitStoreReportAccepted where
  "example_accepted =
     \<lparr>Report = \<lparr>Interval_Min = 5, Interval_Max = 9, MerkleRoot = ''0x77''\<rparr>,
      ReportAccepted_Raw = \<lparr>BlockNumber = 20, TxHash = ''0xc1''\<rparr>\<rparr>"

definition example_blessed :: ARMContractTaggedRootBlessed where
  "example_blessed =
     \<lparr>TaggedRoot_CommitStore = ''0xC5'', TaggedRoot_Root = ''0x77'',
      TaggedRootBlessed_Raw = \<lparr>BlockNumber = 21, TxHash = ''0xb1''\<rparr>\<rparr>"

definition example_executed :: EVM2EVMOffRampExecutionStateChanged where
  "example_executed =
     \<lparr>ESC_SequenceNumber = 7, State = 2, ReturnData = [],
      ExecutionStateChanged_Raw = \<lparr>BlockNumber = 22, TxHash = ''0xe1''\<rparr>\<rparr>"

definition example_request :: CCIPRequest where
  "example_request = \<lparr>Req_ReqNo = 1, Req_txHash = ''0xabc'', txConfirmationTimestamp = 0, Req_RequestStat = new_stat 1\<rparr>"

definition example_finalized :: finalized_tx where
  "example_finalized = \<lparr>finalizedBlockNum = Some 11, finalizedAt = 1, WaitForFinalizedTx_err = None, returned_at = 1\<rparr>"

definition complete_run :: "select list" where
  "complete_run =
     [Interleaved (on_CCIPSendRequested example_send), TickerC (silent_client 1),
      Interleaved (on_ReportAccepted example_accepted), Interleaved (on_TaggedRootBlessed example_blessed),
      Interleaved (on_ExecutionStateChanged example_executed),
      TickerC ((silent_client 2)\<lparr>GetExpectedNextSequenceNumber := Some 10\<rparr>),
      TickerC (silent_client 3), TickerC (silent_client 4), TickerC (silent_client 5)]"

definition failing_run :: "select list" where
  "failing_run =
     [Interleaved (on_CCIPSendRequested example_send), TickerC (silent_client 1),
      TickerC ((silent_client 2)\<lparr>GetExpectedNextSequenceNumber := Some 10\<rparr>),
      TimerC 50, TickerC (silent_client 51)]"

section \<open>Decimal text is faithful\<close>

lemma digit_char_value: "d < 10 \<Longrightarrow> (of_char (digit_char d) :: nat) - 48 = d"
  by (simp add: digit_char_def)

lemma is_digit_digit_char: "d < 10 \<Longrightarrow> is_digit (digit_char d)"
  by (simp add: digit_char_def is_digit_def)

lemma nat_String_digits: "list_all is_digit (nat_String n)"
proof (induction n rule: nat_String.induct)
  case (1 n)
  show ?case
  proof (cases "n < 10")
    case True
    then show ?thesis by (subst nat_String.simps) (simp add: is_digit_digit_char)
  next
    case False
    then show ?thesis using 1 by (subst nat_String.simps) (simp add: is_digit_digit_char)
  qed
qed

lemma nat_String_nonempty: "nat_String n \<noteq> []"
  by (subst nat_String.simps) simp

lemma digits_value_snoc: "digits_value (s @ [c]) = 10 * digits_value s + ((of_char c :: nat) - 48)"
  by (simp add: digits_value_def)

lemma digits_value_nat_String: "digits_value (nat_String n) = n"
proof (induction n rule: nat_String.induct)
  case (1 n)
  show ?case
  proof (cases "n < 10")
    case True
    then show ?thesis by (subst nat_String.simps) (simp add: digits_value_def digit_char_value)
  next
    case False
    then show ?thesis using 1
      by (subst nat_String.simps) (simp add: digits_value_snoc digit_char_value)
  qed
qed

lemma is_digit_not_sign: "is_digit c \<Longrightarrow> c \<noteq> CHR ''-'' \<and> c \<noteq> CHR ''+''"
  by (auto simp: is_digit_def)

lemma SetString_int_String: "SetString (int_String i) = Some i"
proof (cases "i < 0")
  case True
  then show ?thesis
    by (simp add: SetString_def int_String_def nat_String_digits nat_String_nonempty digits_value_nat_String)
next
  case False
  obtain c r where cr: "nat_String (nat i) = c # r"
    using nat_String_nonempty [of "nat i"] by (cases "nat_String (nat i)") auto
  have dig: "list_all is_digit (c # r)"
    using nat_String_digits [of "nat i"] cr by simp
  then have "is_digit c" by simp
  then have ns: "c \<noteq> CHR ''-''" "c \<noteq> CHR ''+''" using is_digit_not_sign by auto
  have "digits_value (c # r) = nat i" using digits_value_nat_String [of "nat i"] cr by simp
  then show ?thesis using False cr dig ns
    by (simp add: SetString_def int_String_def)
qed

lemma int_String_inject: "int_String i = int_String j \<longleftrightarrow> i = j"
  by (metis SetString_int_String option.inject)

lemma SetString_nil: "SetString ''<nil>'' = None"
  by (simp add: SetString_def is_digit_def)

lemma int_String_eq_big_String: "int_String e = big_String actual \<longleftrightarrow> actual = Some e"
  apply (cases actual)
  apply (simp_all add: big_String_def int_String_inject)
  apply (metis SetString_int_String SetString_nil option.distinct(1))
  by auto


section \<open>Properties of the balance sheet\<close>

lemma Update_existing:
  "Items b key = Some prev \<Longrightarrow>
   Items (Update b key item) key =
     Some \<lparr>Address = Address item, Getter = Getter item, PreviousBalance = None,
           AmtToAdd = Some (nz (AmtToAdd prev) + nz (AmtToAdd item)),
           AmtToSub = Some (nz (AmtToSub prev) + nz (AmtToSub item))\<rparr>"
  by (simp add: Update_def nz_def Let_def split: option.splits)

lemma Update_fresh: "Items b key = None \<Longrightarrow> Items (Update b key item) key = Some item"
  by (simp add: Update_def)

lemma Update_other: "k \<noteq> key \<Longrightarrow> Items (Update b key item) k = Items b k"
  by (simp add: Update_def Let_def split: option.splits)

lemma Update_PrevBalance: "PrevBalance (Update b key item) = PrevBalance b"
  by (simp add: Update_def Let_def split: option.splits)

lemma RecordBalance_range_lookup:
  "RecordBalance_range p bal ks k =
     (case p k of Some v \<Rightarrow> Some v | None \<Rightarrow> if k \<in> set ks then bal k else None)"
  by (induction ks arbitrary: p) (auto split: option.splits)

lemma Verify_range_complete:
  "\<forall>k\<in>set ks. Items b k \<noteq> None \<longrightarrow> PrevBalance b k \<noteq> None \<Longrightarrow>
   Verify_range b t bas ks = Return (bas @ concat (map (assertion_of b) ks)) t"
proof (induction ks arbitrary: bas)
  case Nil
  then show ?case by simp
next
  case (Cons key ks)
  show ?case
  proof (cases "Items b key")
    case None
    then show ?thesis using Cons by (simp add: assertion_of_def)
  next
    case (Some item)
    then obtain prev where prev: "PrevBalance b key = Some prev"
      using Cons.prems by auto
    have exp: "expected_balance b key =
        (case AmtToSub item of Some s \<Rightarrow> (case AmtToAdd item of Some a \<Rightarrow> prev + a | None \<Rightarrow> prev) - s
                             | None \<Rightarrow> (case AmtToAdd item of Some a \<Rightarrow> prev + a | None \<Rightarrow> prev))"
      by (simp add: expected_balance_def Some prev nz_def split: option.splits)
    show ?thesis
      using Cons Some prev by (simp add: assertion_of_def exp Let_def)
  qed
qed

lemma Verify_range_missing:
  "\<exists>k\<in>set ks. Items b k \<noteq> None \<and> PrevBalance b k = None \<Longrightarrow>
   \<exists>k\<in>set ks. Items b k \<noteq> None \<and> PrevBalance b k = None \<and>
     Verify_range b t bas ks = Goexit (t @ [Errorf ''previous balance is not captured for %s'' [Str k]])"
proof (induction ks arbitrary: bas)
  case Nil
  then show ?case by simp
next
  case (Cons key ks)
  show ?case
  proof (cases "Items b key")
    case None
    then have "\<exists>k\<in>set ks. Items b k \<noteq> None \<and> PrevBalance b k = None"
      using Cons.prems by auto
    from Cons.IH [OF this, of bas] show ?thesis using None by auto
  next
    case (Some item)
    show ?thesis
    proof (cases "PrevBalance b key")
      case None
      then show ?thesis using Some by auto
    next
      case (Some prev)
      then have "\<exists>k\<in>set ks. Items b k \<noteq> None \<and> PrevBalance b k = None"
        using Cons.prems by auto
      from Cons.IH [OF this] show ?thesis using Some \<open>Items b key = Some item\<close>
        by (simp add: Let_def)
    qed
  qed
qed

lemma AssertBalances_assertions:
  "AssertBalances t (concat (map (assertion_of b) ks)) =
     Return () (t @ concat (map (balance_failures b) ks))"
proof (induction ks arbitrary: t)
  case Nil
  then show ?case by simp
next
  case (Cons key ks)
  show ?case
  proof (cases "Items b key")
    case None
    then show ?thesis using Cons by (simp add: assertion_of_def balance_failures_def)
  next
    case (Some item)
    then show ?thesis using Cons
      by (simp add: assertion_of_def balance_failures_def Let_def assert_NotNil_def
          int_String_eq_big_String)
  qed
qed

lemma balance_failures_empty_iff:
  "Items b key = Some item \<Longrightarrow>
   balance_failures b key = [] \<longleftrightarrow> Getter item (Address item) = Some (expected_balance b key)"
  by (auto simp: balance_failures_def Let_def)

text \<open>
  Claim C8. \<^verbatim>\<open>BalanceSheet.Update\<close> merges repeated updates of one key additively: after
  two updates of a key, the item of the key holds as amount to add the sum of the
  amounts to add of the two updates, and as amount to subtract the sum of their amounts
  to subtract, on top of what the sheet held for the key before; a nil amount counts as
  zero.
\<close>

theorem Update_merges_additively:
  "\<exists>merged. Items (Update (Update b key first) key second) key = Some merged \<and>
     AmtToAdd merged =
       Some ((case Items b key of None \<Rightarrow> 0 | Some prior \<Rightarrow> nz (AmtToAdd prior)) +
             nz (AmtToAdd first) + nz (AmtToAdd second)) \<and>
     AmtToSub merged =
       Some ((case Items b key of None \<Rightarrow> 0 | Some prior \<Rightarrow> nz (AmtToSub prior)) +
             nz (AmtToSub first) + nz (AmtToSub second))"
proof (cases "Items b key")
  case None
  then have "Items (Update b key first) key = Some first"
    by (rule Update_fresh)
  from Update_existing [OF this, of second] show ?thesis
    using None by simp
next
  case (Some prior)
  from Update_existing [OF this, of first]
  obtain once where once: "Items (Update b key first) key = Some once"
    and add: "AmtToAdd once = Some (nz (AmtToAdd prior) + nz (AmtToAdd first))"
    and sub: "AmtToSub once = Some (nz (AmtToSub prior) + nz (AmtToSub first))"
    by simp
  from Update_existing [OF once, of second] show ?thesis
    using Some add sub by (simp add: nz_def)
qed

text \<open>The example of the specification: add 10, then add 5, gives a merged add of 15.\<close>

theorem Update_merges_additively_witness:
  "\<exists>merged.
     Items (Update (Update NewBalanceSheet ''pool''
               \<lparr>Address = ''0xA'', Getter = (\<lambda>_. None), PreviousBalance = None,
                AmtToAdd = Some 10, AmtToSub = None\<rparr>) ''pool''
               \<lparr>Address = ''0xA'', Getter = (\<lambda>_. None), PreviousBalance = None,
                AmtToAdd = Some 5, AmtToSub = None\<rparr>) ''pool'' = Some merged \<and>
     AmtToAdd merged = Some 15 \<and> AmtToSub merged = Some 0"
  using Update_merges_additively [of NewBalanceSheet "''pool''"
      "\<lparr>Address = ''0xA'', Getter = (\<lambda>_. None), PreviousBalance = None, AmtToAdd = Some 10, AmtToSub = None\<rparr>"
      "\<lparr>Address = ''0xA'', Getter = (\<lambda>_. None), PreviousBalance = None, AmtToAdd = Some 5, AmtToSub = None\<rparr>"]
  by (simp add: nz_def NewBalanceSheet_def)

text \<open>
  Claim C9. \<^verbatim>\<open>BalanceSheet.RecordBalance\<close> never overwrites a recorded balance: whatever
  the order in which the snapshot is visited, a key that already has a previous balance
  keeps it, and a key without one gets the value of the snapshot (and stays without one
  when the snapshot does not hold it either).
\<close>

theorem RecordBalance_first_writer_wins:
  "set ks = dom bal \<Longrightarrow>
   PrevBalance (RecordBalance b bal ks) k =
     (case PrevBalance b k of Some v \<Rightarrow> Some v | None \<Rightarrow> bal k)"
  by (auto simp: RecordBalance_def RecordBalance_range_lookup split: option.splits)

theorem RecordBalance_first_writer_wins_witness:
  "set [''b'', ''a''] = dom [''a'' \<mapsto> (2::int), ''b'' \<mapsto> 3] \<and>
   PrevBalance (RecordBalance \<lparr>Items = Map.empty, PrevBalance = [''a'' \<mapsto> 1]\<rparr>
                  [''a'' \<mapsto> 2, ''b'' \<mapsto> 3] [''b'', ''a'']) ''a'' = Some 1 \<and>
   PrevBalance (RecordBalance \<lparr>Items = Map.empty, PrevBalance = [''a'' \<mapsto> 1]\<rparr>
                  [''a'' \<mapsto> 2, ''b'' \<mapsto> 3] [''b'', ''a'']) ''b'' = Some 3"
proof -
  have ks: "set [''b'', ''a''] = dom [''a'' \<mapsto> (2::int), ''b'' \<mapsto> 3]"
    by auto
  show ?thesis
    using ks
      RecordBalance_first_writer_wins [OF ks, of "\<lparr>Items = Map.empty, PrevBalance = [''a'' \<mapsto> 1]\<rparr>" "''a''"]
      RecordBalance_first_writer_wins [OF ks, of "\<lparr>Items = Map.empty, PrevBalance = [''a'' \<mapsto> 1]\<rparr>" "''b''"]
    by simp
qed

text \<open>
  Claim C6. \<^verbatim>\<open>BalanceSheet.Verify\<close>, whatever the order \<open>ks\<close> in which the items are
  visited: when every key of the items has a previous balance, the test goes on and the
  failures recorded are, key by key, the ones of comparing the balance that the getter
  of the item returns with \<open>PrevBalance + AmtToAdd - AmtToSub\<close> (a nil amount counting
  as zero), none for a key whose balance is the expected one; when a key of the items
  has no previous balance, the test is stopped with the failure
  \<^verbatim>\<open>previous balance is not captured\<close> for such a key and no balance is asserted.
\<close>

theorem Verify_checks_expected_balances:
  "set ks = dom (Items b) \<Longrightarrow>
   ((\<forall>k\<in>dom (Items b). PrevBalance b k \<noteq> None) \<longrightarrow>
      Verify b ks t = Return () (t @ concat (map (balance_failures b) ks))) \<and>
   ((\<exists>k\<in>dom (Items b). PrevBalance b k = None) \<longrightarrow>
      (\<exists>k\<in>dom (Items b). PrevBalance b k = None \<and>
         Verify b ks t = Goexit (t @ [Errorf ''previous balance is not captured for %s'' [Str k]])))"
proof (intro conjI impI)
  assume ks: "set ks = dom (Items b)" and all: "\<forall>k\<in>dom (Items b). PrevBalance b k \<noteq> None"
  then have "\<forall>k\<in>set ks. Items b k \<noteq> None \<longrightarrow> PrevBalance b k \<noteq> None" by auto
  then show "Verify b ks t = Return () (t @ concat (map (balance_failures b) ks))"
    by (simp add: Verify_def Verify_range_complete AssertBalances_assertions)
next
  assume ks: "set ks = dom (Items b)" and ex: "\<exists>k\<in>dom (Items b). PrevBalance b k = None"
  then have "\<exists>k\<in>set ks. Items b k \<noteq> None \<and> PrevBalance b k = None" by auto
  from Verify_range_missing [OF this, of t "[]"]
  obtain k where "k \<in> set ks" "Items b k \<noteq> None" "PrevBalance b k = None"
    "Verify_range b t [] ks = Goexit (t @ [Errorf ''previous balance is not captured for %s'' [Str k]])"
    by blast
  then show "\<exists>k\<in>dom (Items b). PrevBalance b k = None \<and>
         Verify b ks t = Goexit (t @ [Errorf ''previous balance is not captured for %s'' [Str k]])"
    using ks by (auto simp: Verify_def)
qed

text \<open>
  The scenario of the specification (baseline 100, one request subtracting 30, actual
  balance 70) passes, and the same sheet without the baseline stops the test.
\<close>

theorem Verify_checks_expected_balances_witness:
  "Verify \<lparr>Items = [''A/X'' \<mapsto> \<lparr>Address = ''A'', Getter = (\<lambda>_. Some 70), PreviousBalance = None,
                                AmtToAdd = None, AmtToSub = Some 30\<rparr>],
           PrevBalance = [''A/X'' \<mapsto> 100]\<rparr> [''A/X''] [] = Return () [] \<and>
   Verify \<lparr>Items = [''A/X'' \<mapsto> \<lparr>Address = ''A'', Getter = (\<lambda>_. Some 70), PreviousBalance = None,
                                AmtToAdd = None, AmtToSub = Some 30\<rparr>],
           PrevBalance = Map.empty\<rparr> [''A/X''] [] =
     Goexit [Errorf ''previous balance is not captured for %s'' [Str ''A/X'']]"
proof -
  let ?item = "\<lparr>Address = ''A'', Getter = (\<lambda>_. Some (70::int)), PreviousBalance = None,
                AmtToAdd = None, AmtToSub = Some (30::int)\<rparr>"
  let ?b1 = "\<lparr>Items = [''A/X'' \<mapsto> ?item], PrevBalance = [''A/X'' \<mapsto> 100]\<rparr>"
  let ?b2 = "\<lparr>Items = [''A/X'' \<mapsto> ?item], PrevBalance = Map.empty\<rparr>"
  have ks1: "set [''A/X''] = dom (Items ?b1)" by simp
  have ks2: "set [''A/X''] = dom (Items ?b2)" by simp
  have "Verify ?b1 [''A/X''] [] = Return () []"
    using Verify_checks_expected_balances [OF ks1, of "[]"]
    by (simp add: balance_failures_def expected_balance_def nz_def)
  moreover have "Verify ?b2 [''A/X''] [] = Goexit [Errorf ''previous balance is not captured for %s'' [Str ''A/X'']]"
    using Verify_checks_expected_balances [OF ks2, of "[]"]
    by simp
  ultimately show ?thesis by simp
qed

section \<open>Properties of the phase waits\<close>

lemma replicate_Reset: "c < 3 \<Longrightarrow> replicate (3 - c) x = x # replicate (2 - c) x"
  by (cases "3 - c") (auto simp: Suc_diff_Suc)

lemma recorded_Failure_UpdateState [simp]:
  "recorded_Failure phase (UpdateState stat seqNum phase d Failure txs)"
  by (simp add: recorded_Failure_def UpdateState_def)

lemma AssertEventCCIPSendRequested_loop_outage:
  "outage Source_IsConnectionRestoredRecently (CCIPSendRequested_present txHash (length reqStat)) lane sched \<Longrightarrow>
   c \<le> 3 \<Longrightarrow> 4 - c \<le> firings sched \<Longrightarrow>
   \<exists>r now. AssertEventCCIPSendRequested_loop txHash timeout prevEventAt reqStat c ops lane sched = Some r \<and>
      timer_ops r = ops @ replicate (3 - c) (Reset timeout) \<and>
      firings (rest r) + (4 - c) = firings sched \<and>
      ret r = (None, now, Some (Errorf ''possible RPC issue - CCIPSendRequested event is not found for tx %s'' [Str txHash])) \<and>
      stats r = map (\<lambda>stat. UpdateState stat 0 CCIPSendRe (time_Since now prevEventAt) Failure None) reqStat"
proof (induction sched arbitrary: lane c ops)
  case Nil
  then show ?case by simp
next
  case (Cons step sched)
  show ?case
  proof (cases step)
    case (TickerC cc)
    with Cons.prems have nf: "\<not> CCIPSendRequested_present txHash (length reqStat) lane cc"
      and out: "outage Source_IsConnectionRestoredRecently (CCIPSendRequested_present txHash (length reqStat)) lane sched"
      and fir: "4 - c \<le> firings sched" by auto
    from nf have "AssertEventCCIPSendRequested_loop txHash timeout prevEventAt reqStat c ops lane (TickerC cc # sched)
        = AssertEventCCIPSendRequested_loop txHash timeout prevEventAt reqStat c ops lane sched"
      by (auto simp: CCIPSendRequested_present_def split: option.splits any.splits)
    with Cons.IH [OF out Cons.prems(2) fir] TickerC show ?thesis by simp
  next
    case (TimerC now)
    with Cons.prems have flag: "Source_IsConnectionRestoredRecently lane = Some False"
      and out: "outage Source_IsConnectionRestoredRecently (CCIPSendRequested_present txHash (length reqStat)) lane sched" by auto
    show ?thesis
    proof (cases "c > 2")
      case True
      then have "c = 3" using Cons.prems(2) by simp
      then show ?thesis using TimerC flag Cons.prems(3) by auto
    next
      case False
      then have c: "c < 3" by simp
      have fir: "4 - (c + 1) \<le> firings sched"
        using Cons.prems(3) TimerC by simp
      from Cons.IH [OF out _ fir, of "ops @ [Reset timeout]"] c
      show ?thesis using TimerC flag False by (auto simp: replicate_Reset)
    qed
  next
    case (Interleaved f)
    with Cons.prems obtain lane' where f: "f lane = Some lane'"
      and out: "outage Source_IsConnectionRestoredRecently (CCIPSendRequested_present txHash (length reqStat)) lane' sched"
      by (auto split: option.splits)
    have fir: "4 - c \<le> firings sched" using Cons.prems(3) Interleaved by simp
    from Cons.IH [OF out Cons.prems(2) fir] show ?thesis using Interleaved f by simp
  qed
qed

lemma AssertSeqNumberExecuted_loop_outage:
  "outage Dest_IsConnectionRestoredRecently (SeqNumber_increased seqNumberBefore) lane sched \<Longrightarrow>
   c \<le> 3 \<Longrightarrow> 4 - c \<le> firings sched \<Longrightarrow>
   \<exists>r now. AssertSeqNumberExecuted_loop seqNumberBefore timeout timeNow reqStat c ops lane sched = Some r \<and>
      timer_ops r = ops @ replicate (3 - c) (Reset timeout) \<and>
      firings (rest r) + (4 - c) = firings sched \<and>
      ret r = Some (Errorf ''possible RPC issue - sequence number is not increased for seq num %d lane %d-->%d''
                  [Uint seqNumberBefore, Uint (Dest_SourceChainId (lane_after r)), Num (Dest_ChainID (lane_after r))]) \<and>
      stats r = UpdateState reqStat seqNumberBefore Commit (time_Since now timeNow) Failure None"
proof (induction sched arbitrary: lane c ops)
  case Nil
  then show ?case by simp
next
  case (Cons step sched)
  show ?case
  proof (cases step)
    case (TickerC cc)
    with Cons.prems have nf: "\<not> SeqNumber_increased seqNumberBefore lane cc"
      and out: "outage Dest_IsConnectionRestoredRecently (SeqNumber_increased seqNumberBefore) lane sched"
      and fir: "4 - c \<le> firings sched" by auto
    from nf have "AssertSeqNumberExecuted_loop seqNumberBefore timeout timeNow reqStat c ops lane (TickerC cc # sched)
        = AssertSeqNumberExecuted_loop seqNumberBefore timeout timeNow reqStat c ops lane sched"
      by (auto simp: SeqNumber_increased_def split: option.splits any.splits)
    with Cons.IH [OF out Cons.prems(2) fir] TickerC show ?thesis by simp
  next
    case (TimerC now)
    with Cons.prems have flag: "Dest_IsConnectionRestoredRecently lane = Some False"
      and out: "outage Dest_IsConnectionRestoredRecently (SeqNumber_increased seqNumberBefore) lane sched" by auto
    show ?thesis
    proof (cases "c > 2")
      case True
      then have "c = 3" using Cons.prems(2) by simp
      then show ?thesis using TimerC flag Cons.prems(3) by auto
    next
      case False
      then have c: "c < 3" by simp
      have fir: "4 - (c + 1) \<le> firings sched"
        using Cons.prems(3) TimerC by simp
      from Cons.IH [OF out _ fir, of "ops @ [Reset timeout]"] c
      show ?thesis using TimerC flag False by (auto simp: replicate_Reset)
    qed
  next
    case (Interleaved f)
    with Cons.prems obtain lane' where f: "f lane = Some lane'"
      and out: "outage Dest_IsConnectionRestoredRecently (SeqNumber_increased seqNumberBefore) lane' sched"
      by (auto split: option.splits)
    have fir: "4 - c \<le> firings sched" using Cons.prems(3) Interleaved by simp
    from Cons.IH [OF out Cons.prems(2) fir] show ?thesis using Interleaved f by simp
  qed
qed

lemma AssertEventReportAccepted_loop_outage:
  "outage Dest_IsConnectionRestoredRecently (ReportAccepted_present seqNum) lane sched \<Longrightarrow>
   c \<le> 3 \<Longrightarrow> 4 - c \<le> firings sched \<Longrightarrow>
   \<exists>r now. AssertEventReportAccepted_loop seqNum timeout prevEventAt reqStat c ops lane sched = Some r \<and>
      timer_ops r = ops @ replicate (3 - c) (Reset timeout) \<and>
      firings (rest r) + (4 - c) = firings sched \<and>
      ret r = (None, now,
               Some (Errorf ''possible RPC issue - ReportAccepted is not found for seq num %d lane %d-->%d''
                       [Uint seqNum, Uint (Dest_SourceChainId (lane_after r)), Num (Dest_ChainID (lane_after r))])) \<and>
      stats r = UpdateState reqStat seqNum Commit (time_Since now prevEventAt) Failure None"
proof (induction sched arbitrary: lane c ops)
  case Nil
  then show ?case by simp
next
  case (Cons step sched)
  show ?case
  proof (cases step)
    case (TickerC cc)
    with Cons.prems have nf: "\<not> ReportAccepted_present seqNum lane cc"
      and out: "outage Dest_IsConnectionRestoredRecently (ReportAccepted_present seqNum) lane sched"
      and fir: "4 - c \<le> firings sched" by auto
    from nf have "AssertEventReportAccepted_loop seqNum timeout prevEventAt reqStat c ops lane (TickerC cc # sched)
        = AssertEventReportAccepted_loop seqNum timeout prevEventAt reqStat c ops lane sched"
      by (auto simp: ReportAccepted_present_def split: option.splits any.splits)
    with Cons.IH [OF out Cons.prems(2) fir] TickerC show ?thesis by simp
  next
    case (TimerC now)
    with Cons.prems have flag: "Dest_IsConnectionRestoredRecently lane = Some False"
      and out: "outage Dest_IsConnectionRestoredRecently (ReportAccepted_present seqNum) lane sched" by auto
    show ?thesis
    proof (cases "c > 2")
      case True
      then have "c = 3" using Cons.prems(2) by simp
      then show ?thesis using TimerC flag Cons.prems(3) by auto
    next
      case False
      then have c: "c < 3" by simp
      have fir: "4 - (c + 1) \<le> firings sched"
        using Cons.prems(3) TimerC by simp
      from Cons.IH [OF out _ fir, of "ops @ [Reset timeout]"] c
      show ?thesis using TimerC flag False by (auto simp: replicate_Reset)
    qed
  next
    case (Interleaved f)
    with Cons.prems obtain lane' where f: "f lane = Some lane'"
      and out: "outage Dest_IsConnectionRestoredRecently (ReportAccepted_present seqNum) lane' sched"
      by (auto split: option.splits)
    have fir: "4 - c \<le> firings sched" using Cons.prems(3) Interleaved by simp
    from Cons.IH [OF out Cons.prems(2) fir] show ?thesis using Interleaved f by simp
  qed
qed

lemma AssertReportBlessed_loop_outage:
  "outage Dest_IsConnectionRestoredRecently (ReportBlessed_present seqNum (MerkleRoot CommitReport)) lane sched \<Longrightarrow>
   c \<le> 3 \<Longrightarrow> 4 - c \<le> firings sched \<Longrightarrow>
   \<exists>r now. AssertReportBlessed_loop seqNum timeout CommitReport prevEventAt reqStat c ops lane sched = Some r \<and>
      timer_ops r = ops @ replicate (3 - c) (Reset timeout) \<and>
      firings (rest r) + (4 - c) = firings sched \<and>
      ret r = (now,
               Some (Errorf ''possible RPC issue - ReportBlessed is not found for interval %+v lane %d-->%d''
                       [Interval (Interval_Min CommitReport) (Interval_Max CommitReport),
                        Uint (Dest_SourceChainId (lane_after r)), Num (Dest_ChainID (lane_after r))])) \<and>
      stats r = UpdateState reqStat seqNum ReportBlessed (time_Since now prevEventAt) Failure None"
proof (induction sched arbitrary: lane c ops)
  case Nil
  then show ?case by simp
next
  case (Cons step sched)
  show ?case
  proof (cases step)
    case (TickerC cc)
    with Cons.prems have nf: "\<not> ReportBlessed_present seqNum (MerkleRoot CommitReport) lane cc"
      and out: "outage Dest_IsConnectionRestoredRecently (ReportBlessed_present seqNum (MerkleRoot CommitReport)) lane sched"
      and fir: "4 - c \<le> firings sched" by auto
    from nf have "AssertReportBlessed_loop seqNum timeout CommitReport prevEventAt reqStat c ops lane (TickerC cc # sched)
        = AssertReportBlessed_loop seqNum timeout CommitReport prevEventAt reqStat c ops lane sched"
      by (auto simp: ReportBlessed_present_def Let_def split: option.splits any.splits)
    with Cons.IH [OF out Cons.prems(2) fir] TickerC show ?thesis by simp
  next
    case (TimerC now)
    with Cons.prems have flag: "Dest_IsConnectionRestoredRecently lane = Some False"
      and out: "outage Dest_IsConnectionRestoredRecently (ReportBlessed_present seqNum (MerkleRoot CommitReport)) lane sched" by auto
    show ?thesis
    proof (cases "c > 2")
      case True
      then have "c = 3" using Cons.prems(2) by simp
      then show ?thesis using TimerC flag Cons.prems(3) by auto
    next
      case False
      then have c: "c < 3" by simp
      have fir: "4 - (c + 1) \<le> firings sched"
        using Cons.prems(3) TimerC by simp
      from Cons.IH [OF out _ fir, of "ops @ [Reset timeout]"] c
      show ?thesis using TimerC flag False by (auto simp: replicate_Reset)
    qed
  next
    case (Interleaved f)
    with Cons.prems obtain lane' where f: "f lane = Some lane'"
      and out: "outage Dest_IsConnectionRestoredRecently (ReportBlessed_present seqNum (MerkleRoot CommitReport)) lane' sched"
      by (auto split: option.splits)
    have fir: "4 - c \<le> firings sched" using Cons.prems(3) Interleaved by simp
    from Cons.IH [OF out Cons.prems(2) fir] show ?thesis using Interleaved f by simp
  qed
qed

lemma AssertEventExecutionStateChanged_loop_outage:
  "outage Dest_IsConnectionRestoredRecently (ExecutionStateChanged_present seqNum) lane sched \<Longrightarrow>
   c \<le> 3 \<Longrightarrow> 4 - c \<le> firings sched \<Longrightarrow>
   \<exists>r now. AssertEventExecutionStateChanged_loop seqNum timeout timeNow reqStat execState c ops lane sched = Some r \<and>
      timer_ops r = ops @ replicate (3 - c) (Reset timeout) \<and>
      firings (rest r) + (4 - c) = firings sched \<and>
      ret r = (0,
               Some (Errorf ''possible RPC issues - ExecutionStateChanged event not found for seq num %d for lane %d-->%d''
                       [Uint seqNum, Uint (Dest_SourceChainId (lane_after r)), Num (Dest_ChainID (lane_after r))])) \<and>
      stats r = UpdateState reqStat seqNum ExecStateChanged (time_Since now timeNow) Failure None"
proof (induction sched arbitrary: lane c ops)
  case Nil
  then show ?case by simp
next
  case (Cons step sched)
  show ?case
  proof (cases step)
    case (TickerC cc)
    with Cons.prems have nf: "\<not> ExecutionStateChanged_present seqNum lane cc"
      and out: "outage Dest_IsConnectionRestoredRecently (ExecutionStateChanged_present seqNum) lane sched"
      and fir: "4 - c \<le> firings sched" by auto
    from nf have "AssertEventExecutionStateChanged_loop seqNum timeout timeNow reqStat execState c ops lane (TickerC cc # sched)
        = AssertEventExecutionStateChanged_loop seqNum timeout timeNow reqStat execState c ops lane sched"
      by (auto simp: ExecutionStateChanged_present_def split: option.splits any.splits)
    with Cons.IH [OF out Cons.prems(2) fir] TickerC show ?thesis by simp
  next
    case (TimerC now)
    with Cons.prems have flag: "Dest_IsConnectionRestoredRecently lane = Some False"
      and out: "outage Dest_IsConnectionRestoredRecently (ExecutionStateChanged_present seqNum) lane sched" by auto
    show ?thesis
    proof (cases "c > 2")
      case True
      then have "c = 3" using Cons.prems(2) by simp
      then show ?thesis using TimerC flag Cons.prems(3) by auto
    next
      case False
      then have c: "c < 3" by simp
      have fir: "4 - (c + 1) \<le> firings sched"
        using Cons.prems(3) TimerC by simp
      from Cons.IH [OF out _ fir, of "ops @ [Reset timeout]"] c
      show ?thesis using TimerC flag False by (auto simp: replicate_Reset)
    qed
  next
    case (Interleaved f)
    with Cons.prems obtain lane' where f: "f lane = Some lane'"
      and out: "outage Dest_IsConnectionRestoredRecently (ExecutionStateChanged_present seqNum) lane' sched"
      by (auto split: option.splits)
    have fir: "4 - c \<le> firings sched" using Cons.prems(3) Interleaved by simp
    from Cons.IH [OF out Cons.prems(2) fir] show ?thesis using Interleaved f by simp
  qed
qed

lemma replicate3: "replicate 3 x = [x, x, x]"
  by (simp add: numeral_3_eq_3)

text \<open>
  Claim C2. For each of the five waits that run a timer (the send-requested event, the
  increase of the sequence number in the commit store, the accepted report, the blessed
  report when the lane has a real ARM contract, and the execution state change): in a
  run where the flag of the chain says at every firing of the timer that the connection
  was not restored, where no tick finds what the wait looks for, and where the timer
  fires at least four times, the wait returns. It has then reset its timer exactly
  three times, it returns at the fourth firing, its error is classified as a possible
  RPC issue, and the status it has recorded last for its phase is Failure.
\<close>

theorem timeout_reset_bound:
  "4 \<le> firings sched \<Longrightarrow>
   (outage Source_IsConnectionRestoredRecently (CCIPSendRequested_present txHash (length reqStats)) lane sched \<longrightarrow>
      (\<exists>r e. AssertEventCCIPSendRequested txHash timeout prevEventAt reqStats lane sched = Some r \<and>
         timer_ops r = [NewTimer timeout, Reset timeout, Reset timeout, Reset timeout] \<and>
         firings (rest r) + 4 = firings sched \<and>
         snd (snd (ret r)) = Some e \<and> possible_RPC_issue e \<and>
         list_all (recorded_Failure CCIPSendRe) (stats r))) \<and>
   (outage Dest_IsConnectionRestoredRecently (SeqNumber_increased seqNum) lane sched \<longrightarrow>
      (\<exists>r e. AssertSeqNumberExecuted seqNum timeout prevEventAt reqStat lane sched = Some r \<and>
         timer_ops r = [NewTimer timeout, Reset timeout, Reset timeout, Reset timeout] \<and>
         firings (rest r) + 4 = firings sched \<and>
         ret r = Some e \<and> possible_RPC_issue e \<and> recorded_Failure Commit (stats r))) \<and>
   (outage Dest_IsConnectionRestoredRecently (ReportAccepted_present seqNum) lane sched \<longrightarrow>
      (\<exists>r e. AssertEventReportAccepted seqNum timeout prevEventAt reqStat lane sched = Some r \<and>
         timer_ops r = [NewTimer timeout, Reset timeout, Reset timeout, Reset timeout] \<and>
         firings (rest r) + 4 = firings sched \<and>
         snd (snd (ret r)) = Some e \<and> possible_RPC_issue e \<and> recorded_Failure Commit (stats r))) \<and>
   (Dest_ARM lane \<and>
    outage Dest_IsConnectionRestoredRecently (ReportBlessed_present seqNum (MerkleRoot CommitReport)) lane sched \<longrightarrow>
      (\<exists>r e. AssertReportBlessed seqNum timeout CommitReport prevEventAt reqStat lane sched = Some r \<and>
         timer_ops r = [NewTimer timeout, Reset timeout, Reset timeout, Reset timeout] \<and>
         firings (rest r) + 4 = firings sched \<and>
         snd (ret r) = Some e \<and> possible_RPC_issue e \<and> recorded_Failure ReportBlessed (stats r))) \<and>
   (outage Dest_IsConnectionRestoredRecently (ExecutionStateChanged_present seqNum) lane sched \<longrightarrow>
      (\<exists>r e. AssertEventExecutionStateChanged seqNum timeout prevEventAt reqStat execState lane sched = Some r \<and>
         timer_ops r = [NewTimer timeout, Reset timeout, Reset timeout, Reset timeout] \<and>
         firings (rest r) + 4 = firings sched \<and>
         snd (ret r) = Some e \<and> possible_RPC_issue e \<and> recorded_Failure ExecStateChanged (stats r)))"
proof (intro conjI impI)
  assume fir: "4 \<le> firings sched"
  then have fir0: "4 - 0 \<le> firings sched" by simp
  {
    assume out: "outage Source_IsConnectionRestoredRecently (CCIPSendRequested_present txHash (length reqStats)) lane sched"
    from AssertEventCCIPSendRequested_loop_outage [OF out _ fir0, of timeout prevEventAt "[NewTimer timeout]"]
    show "\<exists>r e. AssertEventCCIPSendRequested txHash timeout prevEventAt reqStats lane sched = Some r \<and>
         timer_ops r = [NewTimer timeout, Reset timeout, Reset timeout, Reset timeout] \<and>
         firings (rest r) + 4 = firings sched \<and>
         snd (snd (ret r)) = Some e \<and> possible_RPC_issue e \<and>
         list_all (recorded_Failure CCIPSendRe) (stats r)"
      by (auto simp: AssertEventCCIPSendRequested_def replicate3 possible_RPC_issue_def list_all_iff)
  }
  {
    assume out: "outage Dest_IsConnectionRestoredRecently (SeqNumber_increased seqNum) lane sched"
    from AssertSeqNumberExecuted_loop_outage [OF out _ fir0, of timeout prevEventAt reqStat "[NewTimer timeout]"]
    show "\<exists>r e. AssertSeqNumberExecuted seqNum timeout prevEventAt reqStat lane sched = Some r \<and>
         timer_ops r = [NewTimer timeout, Reset timeout, Reset timeout, Reset timeout] \<and>
         firings (rest r) + 4 = firings sched \<and>
         ret r = Some e \<and> possible_RPC_issue e \<and> recorded_Failure Commit (stats r)"
      by (auto simp: AssertSeqNumberExecuted_def replicate3 possible_RPC_issue_def)
  }
  {
    assume out: "outage Dest_IsConnectionRestoredRecently (ReportAccepted_present seqNum) lane sched"
    from AssertEventReportAccepted_loop_outage [OF out _ fir0, of timeout prevEventAt reqStat "[NewTimer timeout]"]
    show "\<exists>r e. AssertEventReportAccepted seqNum timeout prevEventAt reqStat lane sched = Some r \<and>
         timer_ops r = [NewTimer timeout, Reset timeout, Reset timeout, Reset timeout] \<and>
         firings (rest r) + 4 = firings sched \<and>
         snd (snd (ret r)) = Some e \<and> possible_RPC_issue e \<and> recorded_Failure Commit (stats r)"
      by (auto simp: AssertEventReportAccepted_def replicate3 possible_RPC_issue_def)
  }
  {
    assume "Dest_ARM lane \<and>
      outage Dest_IsConnectionRestoredRecently (ReportBlessed_present seqNum (MerkleRoot CommitReport)) lane sched"
    then have arm: "Dest_ARM lane"
      and out: "outage Dest_IsConnectionRestoredRecently (ReportBlessed_present seqNum (MerkleRoot CommitReport)) lane sched"
      by simp_all
    from AssertReportBlessed_loop_outage [OF out _ fir0, of timeout prevEventAt reqStat "[NewTimer timeout]"]
    show "\<exists>r e. AssertReportBlessed seqNum timeout CommitReport prevEventAt reqStat lane sched = Some r \<and>
         timer_ops r = [NewTimer timeout, Reset timeout, Reset timeout, Reset timeout] \<and>
         firings (rest r) + 4 = firings sched \<and>
         snd (ret r) = Some e \<and> possible_RPC_issue e \<and> recorded_Failure ReportBlessed (stats r)"
      using arm by (auto simp: AssertReportBlessed_def replicate3 possible_RPC_issue_def)
  }
  {
    assume out: "outage Dest_IsConnectionRestoredRecently (ExecutionStateChanged_present seqNum) lane sched"
    from AssertEventExecutionStateChanged_loop_outage [OF out _ fir0, of timeout prevEventAt reqStat execState "[NewTimer timeout]"]
    show "\<exists>r e. AssertEventExecutionStateChanged seqNum timeout prevEventAt reqStat execState lane sched = Some r \<and>
         timer_ops r = [NewTimer timeout, Reset timeout, Reset timeout, Reset timeout] \<and>
         firings (rest r) + 4 = firings sched \<and>
         snd (ret r) = Some e \<and> possible_RPC_issue e \<and> recorded_Failure ExecStateChanged (stats r)"
      by (auto simp: AssertEventExecutionStateChanged_def replicate3 possible_RPC_issue_def)
  }
qed


theorem timeout_reset_bound_witness:
  "4 \<le> firings [TickerC (silent_client 1), TimerC 2, TimerC 3, Interleaved Some, TimerC 4, TimerC 5, TickerC (silent_client 6)] \<and>
   outage Source_IsConnectionRestoredRecently (CCIPSendRequested_present ''0xabc'' (length [new_stat 1])) outage_lane
     [TickerC (silent_client 1), TimerC 2, TimerC 3, Interleaved Some, TimerC 4, TimerC 5, TickerC (silent_client 6)] \<and>
   outage Dest_IsConnectionRestoredRecently (SeqNumber_increased 7) outage_lane
     [TickerC (silent_client 1), TimerC 2, TimerC 3, Interleaved Some, TimerC 4, TimerC 5, TickerC (silent_client 6)] \<and>
   outage Dest_IsConnectionRestoredRecently (ReportAccepted_present 7) outage_lane
     [TickerC (silent_client 1), TimerC 2, TimerC 3, Interleaved Some, TimerC 4, TimerC 5, TickerC (silent_client 6)] \<and>
   (Dest_ARM outage_lane \<and>
    outage Dest_IsConnectionRestoredRecently
      (ReportBlessed_present 7 (MerkleRoot \<lparr>Interval_Min = 5, Interval_Max = 9, MerkleRoot = ''0x77''\<rparr>)) outage_lane
     [TickerC (silent_client 1), TimerC 2, TimerC 3, Interleaved Some, TimerC 4, TimerC 5, TickerC (silent_client 6)]) \<and>
   outage Dest_IsConnectionRestoredRecently (ExecutionStateChanged_present 7) outage_lane
     [TickerC (silent_client 1), TimerC 2, TimerC 3, Interleaved Some, TimerC 4, TimerC 5, TickerC (silent_client 6)] \<and>
   (\<exists>r. AssertEventCCIPSendRequested ''0xabc'' 30 0 [new_stat 1] outage_lane
          [TickerC (silent_client 1), TimerC 2, TimerC 3, Interleaved Some, TimerC 4, TimerC 5, TickerC (silent_client 6)] = Some r \<and>
        timer_ops r = [NewTimer 30, Reset 30, Reset 30, Reset 30]) \<and>
   (\<exists>r. AssertSeqNumberExecuted 7 30 0 (new_stat 1) outage_lane
          [TickerC (silent_client 1), TimerC 2, TimerC 3, Interleaved Some, TimerC 4, TimerC 5, TickerC (silent_client 6)] = Some r \<and>
        timer_ops r = [NewTimer 30, Reset 30, Reset 30, Reset 30]) \<and>
   (\<exists>r. AssertEventReportAccepted 7 30 0 (new_stat 1) outage_lane
          [TickerC (silent_client 1), TimerC 2, TimerC 3, Interleaved Some, TimerC 4, TimerC 5, TickerC (silent_client 6)] = Some r \<and>
        timer_ops r = [NewTimer 30, Reset 30, Reset 30, Reset 30]) \<and>
   (\<exists>r. AssertReportBlessed 7 30 \<lparr>Interval_Min = 5, Interval_Max = 9, MerkleRoot = ''0x77''\<rparr> 0 (new_stat 1) outage_lane
          [TickerC (silent_client 1), TimerC 2, TimerC 3, Interleaved Some, TimerC 4, TimerC 5, TickerC (silent_client 6)] = Some r \<and>
        timer_ops r = [NewTimer 30, Reset 30, Reset 30, Reset 30]) \<and>
   (\<exists>r. AssertEventExecutionStateChanged 7 30 0 (new_stat 1) 2 outage_lane
          [TickerC (silent_client 1), TimerC 2, TimerC 3, Interleaved Some, TimerC 4, TimerC 5, TickerC (silent_client 6)] = Some r \<and>
        timer_ops r = [NewTimer 30, Reset 30, Reset 30, Reset 30])"
proof -
  let ?sched = "[TickerC (silent_client 1), TimerC 2, TimerC 3, Interleaved Some, TimerC 4, TimerC 5, TickerC (silent_client 6)]"
  let ?report = "\<lparr>Interval_Min = 5, Interval_Max = 9, MerkleRoot = ''0x77''\<rparr>"
  have fir: "4 \<le> firings ?sched" by simp
  have lane: "Source_IsConnectionRestoredRecently outage_lane = Some False"
    "Dest_IsConnectionRestoredRecently outage_lane = Some False" "Dest_ARM outage_lane"
    "CCIPSendRequestedWatcher outage_lane = Map.empty" "ReportAcceptedWatcher outage_lane = Map.empty"
    "ExecStateChangedWatcher outage_lane = Map.empty" "ReportBlessedWatcher outage_lane = Map.empty"
    "ReportBlessedBySeqNum outage_lane = Map.empty" "NextSeqNumToCommit outage_lane = 1"
    by (simp_all add: outage_lane_def fresh_lane_def PollRPCConnection_issue_def)
  have o1: "outage Source_IsConnectionRestoredRecently (CCIPSendRequested_present ''0xabc'' (length [new_stat 1])) outage_lane ?sched"
    by (simp add: lane CCIPSendRequested_present_def)
  have o2: "outage Dest_IsConnectionRestoredRecently (SeqNumber_increased 7) outage_lane ?sched"
    by (simp add: lane SeqNumber_increased_def silent_client_def)
  have o3: "outage Dest_IsConnectionRestoredRecently (ReportAccepted_present 7) outage_lane ?sched"
    by (simp add: lane ReportAccepted_present_def)
  have o4: "outage Dest_IsConnectionRestoredRecently (ReportBlessed_present 7 (MerkleRoot ?report)) outage_lane ?sched"
    by (simp add: lane ReportBlessed_present_def)
  have o5: "outage Dest_IsConnectionRestoredRecently (ExecutionStateChanged_present 7) outage_lane ?sched"
    by (simp add: lane ExecutionStateChanged_present_def)
  from timeout_reset_bound [OF fir, where txHash = "''0xabc''" and reqStats = "[new_stat 1]"
      and lane = outage_lane and seqNum = 7 and CommitReport = ?report and timeout = 30
      and prevEventAt = 0 and reqStat = "new_stat 1" and execState = 2]
  show ?thesis
    using fir o1 o2 o3 o4 o5 lane(3) by blast
qed

text \<open>
  The messages that the waits return when the timer fires and the connection is not
  reported as lost are not classified as a possible RPC issue.
\<close>

lemma not_found_messages:
  "\<not> possible_RPC_issue (Errorf ''CCIPSendRequested event is not found for tx %s'' a1)"
  "\<not> possible_RPC_issue (Errorf ''sequence number is not increased for seq num %d lane %d-->%d'' a2)"
  "\<not> possible_RPC_issue (Errorf ''ReportAccepted is not found for seq num %d lane %d-->%d'' a3)"
  "\<not> possible_RPC_issue (Errorf ''ReportBlessed is not found for interval %+v lane %d-->%d'' a4)"
  "\<not> possible_RPC_issue (Errorf ''ExecutionStateChanged event not found for seq num %d for lane %d-->%d'' a5)"
  by (simp_all add: possible_RPC_issue_def)

text \<open>
  Claim C7. In each of the five waits that run a timer, at any point of the wait (any
  count of resets \<open>c\<close> and any operations \<open>ops\<close> made on the timer so far): when the timer
  fires and the flag of the chain does not say that the connection is lost (the flag is
  nil or true), the wait returns at once. It makes no further operation on its timer and
  consumes no further step, it leaves the lane as it is, its error is the not-found
  message of the wait and not a possible RPC issue, and the status it records for its
  phase is Failure.
\<close>

theorem healthy_timeout_fails_without_retry:
  "(Source_IsConnectionRestoredRecently lane \<noteq> Some False \<longrightarrow>
      AssertEventCCIPSendRequested_loop txHash timeout prevEventAt reqStats c ops lane (TimerC now # sched) =
        Some \<lparr>ret = (None, now, Some (Errorf ''CCIPSendRequested event is not found for tx %s'' [Str txHash])),
              stats = map (\<lambda>stat. UpdateState stat 0 CCIPSendRe (time_Since now prevEventAt) Failure None) reqStats,
              lane_after = lane, timer_ops = ops, rest = sched\<rparr> \<and>
      list_all (recorded_Failure CCIPSendRe)
        (map (\<lambda>stat. UpdateState stat 0 CCIPSendRe (time_Since now prevEventAt) Failure None) reqStats)) \<and>
   (Dest_IsConnectionRestoredRecently lane \<noteq> Some False \<longrightarrow>
      AssertSeqNumberExecuted_loop seqNum timeout prevEventAt reqStat c ops lane (TimerC now # sched) =
        Some \<lparr>ret = Some (Errorf ''sequence number is not increased for seq num %d lane %d-->%d''
                           [Uint seqNum, Uint (Dest_SourceChainId lane), Num (Dest_ChainID lane)]),
              stats = UpdateState reqStat seqNum Commit (time_Since now prevEventAt) Failure None,
              lane_after = lane, timer_ops = ops, rest = sched\<rparr> \<and>
      AssertEventReportAccepted_loop seqNum timeout prevEventAt reqStat c ops lane (TimerC now # sched) =
        Some \<lparr>ret = (None, now,
                     Some (Errorf ''ReportAccepted is not found for seq num %d lane %d-->%d''
                             [Uint seqNum, Uint (Dest_SourceChainId lane), Num (Dest_ChainID lane)])),
              stats = UpdateState reqStat seqNum Commit (time_Since now prevEventAt) Failure None,
              lane_after = lane, timer_ops = ops, rest = sched\<rparr> \<and>
      AssertReportBlessed_loop seqNum timeout CommitReport prevEventAt reqStat c ops lane (TimerC now # sched) =
        Some \<lparr>ret = (now,
                     Some (Errorf ''ReportBlessed is not found for interval %+v lane %d-->%d''
                             [Interval (Interval_Min CommitReport) (Interval_Max CommitReport),
                              Uint (Dest_SourceChainId lane), Num (Dest_ChainID lane)])),
              stats = UpdateState reqStat seqNum ReportBlessed (time_Since now prevEventAt) Failure None,
              lane_after = lane, timer_ops = ops, rest = sched\<rparr> \<and>
      AssertEventExecutionStateChanged_loop seqNum timeout prevEventAt reqStat execState c ops lane (TimerC now # sched) =
        Some \<lparr>ret = (0,
                     Some (Errorf ''ExecutionStateChanged event not found for seq num %d for lane %d-->%d''
                             [Uint seqNum, Uint (Dest_SourceChainId lane), Num (Dest_ChainID lane)])),
              stats = UpdateState reqStat seqNum ExecStateChanged (time_Since now prevEventAt) Failure None,
              lane_after = lane, timer_ops = ops, rest = sched\<rparr> \<and>
      recorded_Failure Commit (UpdateState reqStat seqNum Commit (time_Since now prevEventAt) Failure None) \<and>
      recorded_Failure ReportBlessed (UpdateState reqStat seqNum ReportBlessed (time_Since now prevEventAt) Failure None) \<and>
      recorded_Failure ExecStateChanged
        (UpdateState reqStat seqNum ExecStateChanged (time_Since now prevEventAt) Failure None))"
  by (simp add: list_all_iff)

text \<open>
  The first firing of the timer of each wait, on a lane that has seen no connection
  event (the flags are nil): one request, no reset, the not-found message.
\<close>

theorem healthy_timeout_fails_without_retry_witness:
  "Source_IsConnectionRestoredRecently fresh_lane \<noteq> Some False \<and>
   Dest_IsConnectionRestoredRecently fresh_lane \<noteq> Some False \<and>
   AssertEventCCIPSendRequested ''0xabc'' 30 100 [new_stat 1] fresh_lane [TimerC 130] =
     Some \<lparr>ret = (None, 130, Some (Errorf ''CCIPSendRequested event is not found for tx %s'' [Str ''0xabc''])),
           stats = [UpdateState (new_stat 1) 0 CCIPSendRe 30 Failure None],
           lane_after = fresh_lane, timer_ops = [NewTimer 30], rest = []\<rparr> \<and>
   timer_ops (the (AssertSeqNumberExecuted 7 30 100 (new_stat 1) fresh_lane [TimerC 130])) = [NewTimer 30] \<and>
   timer_ops (the (AssertEventReportAccepted 7 30 100 (new_stat 1) fresh_lane [TimerC 130])) = [NewTimer 30] \<and>
   timer_ops (the (AssertReportBlessed 7 30 \<lparr>Interval_Min = 5, Interval_Max = 9, MerkleRoot = ''0x77''\<rparr>
                     100 (new_stat 1) fresh_lane [TimerC 130])) = [NewTimer 30] \<and>
   timer_ops (the (AssertEventExecutionStateChanged 7 30 100 (new_stat 1) 2 fresh_lane [TimerC 130])) = [NewTimer 30]"
proof -
  have flags: "Source_IsConnectionRestoredRecently fresh_lane \<noteq> Some False"
    "Dest_IsConnectionRestoredRecently fresh_lane \<noteq> Some False" "Dest_ARM fresh_lane"
    by (simp_all add: fresh_lane_def)
  have since: "time_Since 130 100 = 30"
    by (simp add: time_Since_def time_Sub_def minDuration_def maxDuration_def)
  from healthy_timeout_fails_without_retry [where lane = fresh_lane and txHash = "''0xabc''" and timeout = 30
      and prevEventAt = 100 and reqStats = "[new_stat 1]" and c = 0 and ops = "[NewTimer 30]" and now = 130
      and sched = "[]" and seqNum = 7 and reqStat = "new_stat 1" and execState = 2
      and CommitReport = "\<lparr>Interval_Min = 5, Interval_Max = 9, MerkleRoot = ''0x77''\<rparr>"]
  show ?thesis
    using flags since
    by (simp add: AssertEventCCIPSendRequested_def AssertSeqNumberExecuted_def AssertEventReportAccepted_def
        AssertReportBlessed_def AssertEventExecutionStateChanged_def)
qed

text \<open>
  Claim C10. When the ARM contract of the destination chain is nil (a mock ARM),
  \<^verbatim>\<open>AssertReportBlessed\<close> returns at once, whatever the watcher stores hold: its results
  are the timestamp of the previous phase, unchanged, and no error; it creates no timer,
  consumes no step of the run, leaves the lane as it is and records no status.
\<close>

theorem AssertReportBlessed_skips_for_mock_ARM:
  "\<not> Dest_ARM lane \<Longrightarrow>
   AssertReportBlessed seqNum timeout CommitReport prevEventAt reqStat lane sched =
     Some \<lparr>ret = (prevEventAt, None), stats = reqStat, lane_after = lane, timer_ops = [], rest = sched\<rparr>"
  by (simp add: AssertReportBlessed_def)

text \<open>
  With a mock ARM even a lane whose store holds the blessing of the root leaves the
  store untouched.
\<close>

theorem AssertReportBlessed_skips_for_mock_ARM_witness:
  "\<not> Dest_ARM (fresh_lane\<lparr>Dest_ARM := False,
                           ReportBlessedWatcher := [''0x77'' \<mapsto> ALog \<lparr>BlockNumber = 12, TxHash = ''0xb1''\<rparr>]\<rparr>) \<and>
   AssertReportBlessed 7 30 \<lparr>Interval_Min = 5, Interval_Max = 9, MerkleRoot = ''0x77''\<rparr> 100 (new_stat 1)
       (fresh_lane\<lparr>Dest_ARM := False,
                   ReportBlessedWatcher := [''0x77'' \<mapsto> ALog \<lparr>BlockNumber = 12, TxHash = ''0xb1''\<rparr>]\<rparr>)
       [TickerC (silent_client 101)] =
     Some \<lparr>ret = (100, None), stats = new_stat 1,
           lane_after = fresh_lane\<lparr>Dest_ARM := False,
                          ReportBlessedWatcher := [''0x77'' \<mapsto> ALog \<lparr>BlockNumber = 12, TxHash = ''0xb1''\<rparr>]\<rparr>,
           timer_ops = [], rest = [TickerC (silent_client 101)]\<rparr>"
  using AssertReportBlessed_skips_for_mock_ARM
    [of "fresh_lane\<lparr>Dest_ARM := False,
                     ReportBlessedWatcher := [''0x77'' \<mapsto> ALog \<lparr>BlockNumber = 12, TxHash = ''0xb1''\<rparr>]\<rparr>"
        7 30 "\<lparr>Interval_Min = 5, Interval_Max = 9, MerkleRoot = ''0x77''\<rparr>" 100 "new_stat 1"
        "[TickerC (silent_client 101)]"]
  by simp

section \<open>The expansion of a blessed interval\<close>

text \<open>
  The loop over the interval ends when the upper bound is below the greatest
  \<^verbatim>\<open>uint64\<close>, and then it has stored the value under the numbers of the interval and
  under no other; with the greatest \<^verbatim>\<open>uint64\<close> as upper bound the counter wraps around
  and the loop does not end.
\<close>

lemma Store_interval_Some_max:
  "Store_interval i intervalMax v m = Some m' \<Longrightarrow> intervalMax \<noteq> - 1"
  by (rule Store_interval.raw_induct [where P = "\<lambda>i intervalMax v m m'. intervalMax \<noteq> - 1"])
     (auto split: if_splits)


lemma u64_succ:
  fixes i intervalMax :: u64
  assumes "i \<le> intervalMax" "intervalMax \<noteq> - 1"
  shows "unat (i + 1) = Suc (unat i)"
proof -
  have "i \<noteq> - 1"
  proof
    assume "i = - 1"
    then have "intervalMax = - 1" using assms(1) by (simp add: word_order.extremum_unique)
    then show False using assms(2) by simp
  qed
  then have "1 + i \<noteq> 0" using eq_neg_iff_add_eq_0 [of i 1] by (simp add: add.commute)
  then have "unat (1 + i) = Suc (unat i)" by (rule unatSuc)
  then show ?thesis by (simp add: add.commute)
qed

lemma Store_interval_terminates:
  "intervalMax \<noteq> - 1 \<Longrightarrow>
   Store_interval i intervalMax v m = Some (\<lambda>k. if i \<le> k \<and> k \<le> intervalMax then Some v else m k)"
proof (induction "Suc (unat intervalMax) - unat i" arbitrary: i m)
  case 0
  then have "\<not> i \<le> intervalMax" by (simp add: word_le_nat_alt)
  then show ?case by (subst Store_interval.simps) (auto intro!: ext)
next
  case (Suc n)
  then have le: "i \<le> intervalMax" by (simp add: word_le_nat_alt)
  have un: "unat (i + 1) = Suc (unat i)"
    using le Suc.prems by (rule u64_succ)
  have n: "n = Suc (unat intervalMax) - unat (i + 1)" using Suc.hyps(2) un by simp
  have step: "(i + 1 \<le> k) = (i \<le> k \<and> k \<noteq> i)" for k
    using un by (auto simp: word_le_nat_alt word_unat_eq_iff)
  have "Store_interval i intervalMax v m = Store_interval (i + 1) intervalMax v (m(i \<mapsto> v))"
    using le by (subst Store_interval.simps) simp
  also have "\<dots> = Some (\<lambda>k. if i + 1 \<le> k \<and> k \<le> intervalMax then Some v else (m(i \<mapsto> v)) k)"
    by (rule Suc.hyps(1) [OF n Suc.prems])
  also have "(\<lambda>k. if i + 1 \<le> k \<and> k \<le> intervalMax then Some v else (m(i \<mapsto> v)) k) =
             (\<lambda>k. if i \<le> k \<and> k \<le> intervalMax then Some v else m k)"
    using le by (auto simp: step)
  finally show ?case .
qed


text \<open>
  When the root of the report is found in the store of blessings and the interval ends
  below the greatest \<^verbatim>\<open>uint64\<close>, the tick stores the event under every sequence number
  of the interval and under no other, deletes the root and returns without error.
\<close>

lemma AssertReportBlessed_expands_interval:
  assumes "Dest_ARM lane"
    and "ReportBlessedWatcher lane (MerkleRoot CommitReport) = Some (ALog vLogs)"
    and "Interval_Max CommitReport \<noteq> - 1"
  shows "\<exists>r. AssertReportBlessed seqNum timeout CommitReport prevEventAt reqStat lane (TickerC cc # sched) = Some r \<and>
      ReportBlessedBySeqNum (lane_after r) =
        (\<lambda>k. if Interval_Min CommitReport \<le> k \<and> k \<le> Interval_Max CommitReport then Some (ALog vLogs)
             else ReportBlessedBySeqNum lane k) \<and>
      ReportBlessedWatcher (lane_after r) = (ReportBlessedWatcher lane)(MerkleRoot CommitReport := None) \<and>
      snd (ret r) = None \<and> rest r = sched"
  using assms by (simp add: AssertReportBlessed_def Store_interval_terminates Let_def)



section \<open>Recorded durations\<close>

lemma time_Sub_negative: "time_Sub t u < 0 \<longleftrightarrow> t < u"
  by (auto simp: time_Sub_def minDuration_def maxDuration_def)

lemma time_Sub_nonnegative: "\<not> t < u \<Longrightarrow> 0 \<le> time_Sub t u"
  by (auto simp: time_Sub_def minDuration_def maxDuration_def)

text \<open>
  \<^verbatim>\<open>AssertEventReportAccepted\<close> clamps: when the event is earlier than the previous
  phase, the duration it records is one second, and no duration it records on success
  is negative.
\<close>

lemma AssertEventReportAccepted_clamps:
  assumes "ReportAcceptedWatcher lane seqNum = Some (AReportAccepted reportAccepted)"
  shows "\<exists>r receivedAt. AssertEventReportAccepted_loop seqNum timeout prevEventAt reqStat c ops lane (TickerC cc # sched) = Some r \<and>
      ret r = (Some (Report reportAccepted), receivedAt, None) \<and>
      StatusLog (stats r) = StatusLog reqStat @
        [\<lparr>PS_SeqNum = seqNum, PS_Phase = Commit,
          PS_Duration = (if receivedAt < prevEventAt then Second else time_Sub receivedAt prevEventAt),
          PS_Status = Success,
          PS_SendTransactionStats = PS_SendTransactionStats (last (StatusLog (stats r)))\<rparr>] \<and>
      0 \<le> PS_Duration (last (StatusLog (stats r)))"
  using assms by (auto simp: Let_def UpdateState_def time_Sub_negative time_Sub_nonnegative Second_def)

text \<open>
  Claim C5, at the input where the code departs from it. The claim is that every phase
  wait records the clamp value of one second, never a negative duration, when the
  event of its phase is earlier than the completion of the previous phase. The accepted
  report does so (lemma \<open>AssertEventReportAccepted_clamps\<close>), but the waits for the
  blessing and for the execution state change record the difference as it is: with the
  previous phase completed at second 100 and the block of the event stamped at second
  95, each returns without error and records Success with a duration of minus five
  seconds.
\<close>

theorem later_phases_record_negative_duration:
  "(\<exists>r. AssertReportBlessed 7 30 \<lparr>Interval_Min = 5, Interval_Max = 9, MerkleRoot = ''0x77''\<rparr>
          100000000000 (new_stat 1)
          (fresh_lane\<lparr>ReportBlessedWatcher := [''0x77'' \<mapsto> ALog \<lparr>BlockNumber = 12, TxHash = ''0xb1''\<rparr>]\<rparr>)
          [TickerC \<lparr>Now = 200000000000, HeaderByNumber = (\<lambda>_. Some 95000000000), GetTxReceipt = (\<lambda>_. None),
                    GetExpectedNextSequenceNumber = None\<rparr>] = Some r \<and>
        ret r = (95000000000, None) \<and>
        map (\<lambda>p. (PS_Phase p, PS_Status p, PS_Duration p)) (StatusLog (stats r)) =
          [(ReportBlessed, Success, - 5000000000)]) \<and>
   (\<exists>r. AssertEventExecutionStateChanged 7 30 100000000000 (new_stat 1) 2
          (fresh_lane\<lparr>ExecStateChangedWatcher :=
             [7 \<mapsto> AExecutionStateChanged \<lparr>ESC_SequenceNumber = 7, State = 2, ReturnData = [],
                       ExecutionStateChanged_Raw = \<lparr>BlockNumber = 12, TxHash = ''0xe1''\<rparr>\<rparr>]\<rparr>)
          [TickerC \<lparr>Now = 200000000000, HeaderByNumber = (\<lambda>_. Some 95000000000), GetTxReceipt = (\<lambda>_. None),
                    GetExpectedNextSequenceNumber = None\<rparr>] = Some r \<and>
        ret r = (2, None) \<and>
        map (\<lambda>p. (PS_Phase p, PS_Status p, PS_Duration p)) (StatusLog (stats r)) =
          [(ExecStateChanged, Success, - 5000000000)])"
  by (simp add: AssertReportBlessed_def AssertEventExecutionStateChanged_def fresh_lane_def new_stat_def
      Store_interval_terminates Let_def UpdateState_def time_Sub_def minDuration_def maxDuration_def)

section \<open>Duplicate delivery of an event\<close>

text \<open>
  The callbacks of the accepted reports, of the blessings and of the execution state
  changes store with \<^verbatim>\<open>Store\<close>: a second delivery of the same event leaves the lane as
  the first delivery left it, so no wait can tell the difference. The callback of the
  send-requested events appends: the second delivery makes the slice longer.
\<close>

lemma DeleteNilEntriesFromMap_store:
  "v \<noteq> ANil \<Longrightarrow>
   DeleteNilEntriesFromMap ((DeleteNilEntriesFromMap (m(k \<mapsto> v)))(k \<mapsto> v)) = DeleteNilEntriesFromMap (m(k \<mapsto> v))"
  by (rule ext) (auto simp: DeleteNilEntriesFromMap_def split: option.splits any.splits)

lemma on_ExecutionStateChanged_idempotent:
  "on_ExecutionStateChanged e lane = Some lane1 \<Longrightarrow> on_ExecutionStateChanged e lane1 = Some lane1"
  by (auto simp: on_ExecutionStateChanged_def DeleteNilEntriesFromMap_store)

lemma on_TaggedRootBlessed_idempotent:
  "on_TaggedRootBlessed e lane = Some lane1 \<Longrightarrow> on_TaggedRootBlessed e lane1 = Some lane1"
proof -
  have idem: "DeleteNilEntriesFromMap (DeleteNilEntriesFromMap m) = DeleteNilEntriesFromMap m" for m :: "hash \<rightharpoonup> any"
    by (rule ext) (auto simp: DeleteNilEntriesFromMap_def split: option.splits any.splits)
  assume "on_TaggedRootBlessed e lane = Some lane1"
  then show ?thesis
    by (auto simp: on_TaggedRootBlessed_def Let_def DeleteNilEntriesFromMap_store idem)
qed

lemma DeleteNilEntriesFromMap_interval:
  "v \<noteq> ANil \<Longrightarrow>
   DeleteNilEntriesFromMap (\<lambda>k. if P k then Some v else DeleteNilEntriesFromMap (\<lambda>k. if P k then Some v else m k) k) =
   DeleteNilEntriesFromMap (\<lambda>k. if P k then Some v else m k)"
  by (rule ext) (auto simp: DeleteNilEntriesFromMap_def split: option.splits any.splits)

lemma on_ReportAccepted_idempotent:
  assumes "on_ReportAccepted e lane = Some lane1"
  shows "on_ReportAccepted e lane1 = Some lane1"
proof -
  let ?P = "\<lambda>k. Interval_Min (Report e) \<le> k \<and> k \<le> Interval_Max (Report e)"
  let ?D = "DeleteNilEntriesFromMap (\<lambda>k. if ?P k then Some (AReportAccepted e) else ReportAcceptedWatcher lane k)"
  from assms obtain w where "Store_interval (Interval_Min (Report e)) (Interval_Max (Report e)) (AReportAccepted e)
      (ReportAcceptedWatcher lane) = Some w"
    by (auto simp: on_ReportAccepted_def)
  then have top: "Interval_Max (Report e) \<noteq> - 1" by (rule Store_interval_Some_max)
  with assms have lane1: "lane1 = lane\<lparr>ReportAcceptedWatcher := ?D\<rparr>"
    by (auto simp: on_ReportAccepted_def Store_interval_terminates)
  then have watcher: "ReportAcceptedWatcher lane1 = ?D" by simp
  have "on_ReportAccepted e lane1 =
          Some (lane1\<lparr>ReportAcceptedWatcher :=
                  DeleteNilEntriesFromMap (\<lambda>k. if ?P k then Some (AReportAccepted e) else ?D k)\<rparr>)"
    using top by (simp add: on_ReportAccepted_def Store_interval_terminates watcher)
  also have "DeleteNilEntriesFromMap (\<lambda>k. if ?P k then Some (AReportAccepted e) else ?D k) = ?D"
    by (rule DeleteNilEntriesFromMap_interval) simp
  also have "lane1\<lparr>ReportAcceptedWatcher := ?D\<rparr> = lane1"
    by (simp add: lane1)
  finally show ?thesis .
qed

lemma on_CCIPSendRequested_accumulates:
  assumes "on_CCIPSendRequested e lane = Some lane1"
  shows "\<exists>events. CCIPSendRequestedWatcher lane1 (TxHash (SendRequested_Raw e)) = Some (ASendRequested (events @ [e])) \<and>
           (\<exists>lane2. on_CCIPSendRequested e lane1 = Some lane2 \<and>
              CCIPSendRequestedWatcher lane2 (TxHash (SendRequested_Raw e)) = Some (ASendRequested (events @ [e, e])))"
  using assms
  by (auto simp: on_CCIPSendRequested_def Let_def DeleteNilEntriesFromMap_def split: option.splits any.splits)

text \<open>
  Claim C3, at the input where the code departs from it. The claim is that a second
  delivery of the same event under the same key does not change the outcome of the
  wait, in particular for the send-requested events kept by transaction hash. With one
  request sent by transaction \<^verbatim>\<open>0xabc\<close>: after one delivery of its event the wait
  returns the event and records Success at the first tick; after two deliveries of the
  same event the slice has two elements for one request, the tick does not accept it,
  and at the firing of the timer the wait returns the not-found error and records
  Failure.
\<close>

theorem duplicate_CCIPSendRequested_changes_outcome:
  "(\<exists>r. AssertEventCCIPSendRequested ''0xabc'' 30 0 [new_stat 1] fresh_lane
          [Interleaved (on_CCIPSendRequested example_send), TickerC (silent_client 1), TimerC 30] = Some r \<and>
        ret r = (Some [example_send], 0, None) \<and>
        map (\<lambda>p. (PS_Phase p, PS_Status p)) (StatusLog (hd (stats r))) = [(CCIPSendRe, Success)]) \<and>
   (\<exists>r. AssertEventCCIPSendRequested ''0xabc'' 30 0 [new_stat 1] fresh_lane
          [Interleaved (on_CCIPSendRequested example_send), Interleaved (on_CCIPSendRequested example_send),
           TickerC (silent_client 1), TimerC 30] = Some r \<and>
        ret r = (None, 30, Some (Errorf ''CCIPSendRequested event is not found for tx %s'' [Str ''0xabc''])) \<and>
        map (\<lambda>p. (PS_Phase p, PS_Status p)) (StatusLog (hd (stats r))) = [(CCIPSendRe, Failure)])"
  by (simp add: AssertEventCCIPSendRequested_def on_CCIPSendRequested_def DeleteNilEntriesFromMap_def
      example_send_def fresh_lane_def new_stat_def UpdateState_def Let_def)

section \<open>The order of the phase waits in \<^verbatim>\<open>ValidateRequestByTxHash\<close>\<close>

lemma list_all_butlast: "list_all P xs \<Longrightarrow> list_all P (butlast xs)"
  by (induction xs) simp_all

lemma butlast_append_ok:
  "list_all P xs \<Longrightarrow> list_all P (butlast ys) \<Longrightarrow> list_all P (butlast (xs @ ys))"
  by (cases "ys = []") (simp_all add: butlast_append list_all_butlast)



lemma calls_failedI:
  "calls v = cs @ new \<Longrightarrow> prefix (map fst new) expected \<Longrightarrow> list_all succeeded (butlast new) \<Longrightarrow>
   err v \<noteq> None \<Longrightarrow>
   \<exists>new. calls v = cs @ new \<and> prefix (map fst new) expected \<and> list_all succeeded (butlast new) \<and>
     (err v = None \<longrightarrow> list_all succeeded new \<and> map fst new = expected)"
  by (intro exI [of _ new]) auto

lemma msgLogs_calls:
  "ValidateRequestByTxHash_msgLogs T at ex msgLogs reqStats lane cs sched = Some v \<Longrightarrow>
   \<exists>new. calls v = cs @ new \<and> prefix (map fst new) (dest_calls msgLogs) \<and>
      list_all succeeded (butlast new) \<and>
      (err v = None \<longrightarrow> list_all succeeded new \<and> map fst new = dest_calls msgLogs)"
proof (induction msgLogs arbitrary: reqStats lane cs sched v)
  case Nil
  then have "calls v = cs @ []" by auto
  then show ?case by (intro exI [of _ "[]"]) (simp add: dest_calls_def)
next
  case (Cons msgLog msgLogs)
  let ?s = "Message_SequenceNumber msgLog"
  note run = Cons.prems
  show ?case
  proof (cases "find_reqStat ?s reqStats")
    case None
    with run have "calls v = cs @ []" "err v \<noteq> None" by auto
    then show ?thesis by (intro calls_failedI [where new = "[]"]) simp_all
  next
    case (Some i)
    note found = this
    obtain r1 where r1: "AssertSeqNumberExecuted ?s T at (reqStats ! i) lane sched = Some r1"
    proof (cases "AssertSeqNumberExecuted ?s T at (reqStats ! i) lane sched")
      case None
      with run found have False by simp
      then show ?thesis ..
    next
      case (Some r)
      then show ?thesis using that by blast
    qed
    show ?thesis
    proof (cases "ret r1")
      case (Some e1)
      with run found r1 have "calls v = cs @ [(DestSeqIncrement ?s, Some e1)]" "err v \<noteq> None"
        by (auto simp: Let_def)
      then show ?thesis
        by (intro calls_failedI [where new = "[(DestSeqIncrement ?s, Some e1)]"]) (simp_all add: dest_calls_def)
    next
      case None
      note ok1 = this
      let ?st1 = "reqStats[i := stats r1]"
      let ?c1 = "(DestSeqIncrement ?s, None :: error option)"
      obtain r2 where r2: "AssertEventReportAccepted ?s T at (?st1 ! i) (lane_after r1) (rest r1) = Some r2"
      proof (cases "AssertEventReportAccepted ?s T at (?st1 ! i) (lane_after r1) (rest r1)")
        case None
        with run found r1 ok1 have False by (simp add: Let_def)
        then show ?thesis ..
      next
        case (Some r)
        then show ?thesis using that by blast
      qed
      obtain commitReport reportAcceptedAt err2 where ret2: "ret r2 = (commitReport, reportAcceptedAt, err2)"
        by (cases "ret r2") auto
      have failed2: ?thesis if "calls v = cs @ [?c1, (ReportAccepted ?s, err2)]" "err v \<noteq> None"
        using that
        by (intro calls_failedI [where new = "[?c1, (ReportAccepted ?s, err2)]"])
           (simp_all add: dest_calls_def succeeded_def)
      show ?thesis
      proof (cases err2)
        case (Some e2)
        with run found r1 ok1 r2 ret2 have "calls v = cs @ [?c1, (ReportAccepted ?s, err2)]" "err v \<noteq> None"
          by (auto simp: Let_def)
        then show ?thesis by (rule failed2)
      next
        case None
        note ok2 = this
        show ?thesis
        proof (cases commitReport)
          case None
          with run found r1 ok1 r2 ret2 ok2 have "calls v = cs @ [?c1, (ReportAccepted ?s, err2)]" "err v \<noteq> None"
            by (auto simp: Let_def)
          then show ?thesis by (rule failed2)
        next
          case (Some report)
          note rep = this
          let ?st2 = "?st1[i := stats r2]"
          let ?c2 = "(ReportAccepted ?s, None :: error option)"
          obtain r3 where r3: "AssertReportBlessed ?s T report reportAcceptedAt (?st2 ! i) (lane_after r2) (rest r2) = Some r3"
          proof (cases "AssertReportBlessed ?s T report reportAcceptedAt (?st2 ! i) (lane_after r2) (rest r2)")
            case None
            with run found r1 ok1 r2 ret2 ok2 rep have False by (simp add: Let_def)
            then show ?thesis ..
          next
            case (Some r)
            then show ?thesis using that by blast
          qed
          obtain reportBlessedAt err3 where ret3: "ret r3 = (reportBlessedAt, err3)"
            by (cases "ret r3") auto
          show ?thesis
          proof (cases err3)
            case (Some e3)
            with run found r1 ok1 r2 ret2 ok2 rep r3 ret3
            have "calls v = cs @ [?c1, ?c2, (ReportBlessedWait ?s, Some e3)]" "err v \<noteq> None"
              by (auto simp: Let_def)
            then show ?thesis
              by (intro calls_failedI [where new = "[?c1, ?c2, (ReportBlessedWait ?s, Some e3)]"])
                 (simp_all add: dest_calls_def succeeded_def)
          next
            case None
            note ok3 = this
            let ?st3 = "?st2[i := stats r3]"
            let ?c3 = "(ReportBlessedWait ?s, None :: error option)"
            obtain r4 where r4: "AssertEventExecutionStateChanged ?s T reportBlessedAt (?st3 ! i) ex (lane_after r3) (rest r3) = Some r4"
            proof (cases "AssertEventExecutionStateChanged ?s T reportBlessedAt (?st3 ! i) ex (lane_after r3) (rest r3)")
              case None
              with run found r1 ok1 r2 ret2 ok2 rep r3 ret3 ok3 have False by (simp add: Let_def)
              then show ?thesis ..
            next
              case (Some r)
              then show ?thesis using that by blast
            qed
            show ?thesis
            proof (cases "snd (ret r4)")
              case (Some e4)
              with run found r1 ok1 r2 ret2 ok2 rep r3 ret3 ok3 r4
              have "calls v = cs @ [?c1, ?c2, ?c3, (ExecutionStateChanged ?s, Some e4)]" "err v \<noteq> None"
                by (auto simp: Let_def)
              then show ?thesis
                by (intro calls_failedI [where new = "[?c1, ?c2, ?c3, (ExecutionStateChanged ?s, Some e4)]"])
                   (simp_all add: dest_calls_def succeeded_def)
            next
              case None
              note ok4 = this
              let ?four = "[?c1, ?c2, ?c3, (ExecutionStateChanged ?s, None :: error option)]"
              from run found r1 ok1 r2 ret2 ok2 rep r3 ret3 ok3 r4 ok4
              have rec: "ValidateRequestByTxHash_msgLogs T at ex msgLogs (?st3[i := stats r4]) (lane_after r4)
                           (cs @ ?four) (rest r4) = Some v"
                by (simp add: Let_def)
              from Cons.IH [OF rec] obtain new where
                new0: "calls v = (cs @ ?four) @ new \<and> prefix (map fst new) (dest_calls msgLogs) \<and>
                  list_all succeeded (butlast new) \<and>
                  (err v = None \<longrightarrow> list_all succeeded new \<and> map fst new = dest_calls msgLogs)" ..
              then have new: "calls v = (cs @ ?four) @ new" "prefix (map fst new) (dest_calls msgLogs)"
                  "list_all succeeded (butlast new)"
                  "err v = None \<longrightarrow> list_all succeeded new \<and> map fst new = dest_calls msgLogs"
                by simp_all
              have four: "list_all succeeded ?four" by (simp add: succeeded_def)
              have a: "calls v = cs @ (?four @ new)" using new(1) by simp
              have b: "prefix (map fst (?four @ new)) (dest_calls (msgLog # msgLogs))"
                using new(2) by (simp add: dest_calls_def)
              have c: "list_all succeeded (butlast (?four @ new))"
                using four new(3) by (rule butlast_append_ok)
              have d: "err v = None \<longrightarrow> list_all succeeded (?four @ new) \<and>
                         map fst (?four @ new) = dest_calls (msgLog # msgLogs)"
                using new(4) four by (simp add: dest_calls_def)
              show ?thesis
                by (intro exI [of _ "?four @ new"] conjI a b c d)
            qed
          qed
        qed
      qed
    qed
  qed
qed


text \<open>
  The order of the calls of the waits: the calls made are a beginning of the fixed
  order, each but the last returned without error, and an error of the last is the
  error of the validation.
\<close>

lemma ValidateRequestByTxHash_calls:
  assumes "ValidateRequestByTxHash T ccipRequests txHash ex answer t lane sched = Some (Return v t')"
  shows "\<exists>r0. AssertEventCCIPSendRequested txHash T (txConfirmationTimestamp (hd ccipRequests))
                 (map Req_RequestStat ccipRequests) lane sched = Some r0 \<and>
           calls v \<noteq> [] \<and>
           prefix (map fst (calls v)) (expected_calls (sent_msgLogs r0)) \<and>
           list_all succeeded (butlast (calls v)) \<and>
           (\<not> succeeded (last (calls v)) \<longrightarrow> err v \<noteq> None) \<and>
           (err v = None \<longrightarrow> map fst (calls v) = expected_calls (sent_msgLogs r0))"
proof (cases ccipRequests)
  case Nil
  with assms show ?thesis by (simp add: ValidateRequestByTxHash_def)
next
  case (Cons first others)
  let ?reqStats = "map Req_RequestStat ccipRequests"
  note run = assms [unfolded ValidateRequestByTxHash_def]
  have hd: "txConfirmationTimestamp (hd ccipRequests) = txConfirmationTimestamp first"
    using Cons by simp
  obtain r0 where r0: "AssertEventCCIPSendRequested txHash T (txConfirmationTimestamp first) ?reqStats lane sched = Some r0"
  proof (cases "AssertEventCCIPSendRequested txHash T (txConfirmationTimestamp first) ?reqStats lane sched")
    case None
    with run Cons have False by (simp add: Let_def)
    then show ?thesis ..
  next
    case (Some r)
    then show ?thesis using that by blast
  qed
  obtain msgLogs ccipSendReqGenAt err0 where ret0: "ret r0 = (msgLogs, ccipSendReqGenAt, err0)"
    by (cases "ret r0") auto
  have failed0: ?thesis if "calls v = [(Send, err0)]" "err v \<noteq> None"
    using that r0 hd by (auto simp: expected_calls_def)
  show ?thesis
  proof (cases err0)
    case (Some e0)
    with run Cons r0 ret0 have "calls v = [(Send, err0)]" "err v \<noteq> None"
      by (auto simp: Let_def)
    then show ?thesis by (rule failed0)
  next
    case None
    note ok0 = this
    show ?thesis
    proof (cases msgLogs)
      case None
      with run Cons r0 ret0 ok0 have "calls v = [(Send, err0)]" "err v \<noteq> None"
        by (auto simp: Let_def)
      then show ?thesis by (rule failed0)
    next
      case (Some logs)
      note logs = this
      have sent: "sent_msgLogs r0 = logs"
        by (simp add: sent_msgLogs_def ret0 logs)
      obtain sourceLogFinalizedAt blockNum err1 reqStats1
        where fin: "AssertSendRequestedLogFinalized txHash ccipSendReqGenAt (stats r0) answer =
                      ((sourceLogFinalizedAt, blockNum, err1), reqStats1)"
        by (cases "AssertSendRequestedLogFinalized txHash ccipSendReqGenAt (stats r0) answer") auto
      show ?thesis
      proof (cases err1)
        case (Some e1)
        with run Cons r0 ret0 ok0 logs fin
        have "calls v = [(Send, None), (SourceFinalized, Some e1)]" "err v \<noteq> None"
          by (auto simp: Let_def)
        then show ?thesis using r0 hd
          by (auto simp: expected_calls_def succeeded_def)
      next
        case None
        note ok1 = this
        from run Cons r0 ret0 ok0 logs fin ok1
        have rec: "ValidateRequestByTxHash_msgLogs T sourceLogFinalizedAt ex logs reqStats1 (lane_after r0)
                     [(Send, None), (SourceFinalized, None)] (rest r0) = Some v"
          by (auto simp: Let_def)
        from msgLogs_calls [OF rec] obtain new where
          new0: "calls v = [(Send, None), (SourceFinalized, None)] @ new \<and>
                 prefix (map fst new) (dest_calls logs) \<and> list_all succeeded (butlast new) \<and>
                 (err v = None \<longrightarrow> list_all succeeded new \<and> map fst new = dest_calls logs)" ..
        then have new: "calls v = [(Send, None), (SourceFinalized, None)] @ new"
          "prefix (map fst new) (dest_calls logs)" "list_all succeeded (butlast new)"
          "err v = None \<longrightarrow> list_all succeeded new \<and> map fst new = dest_calls logs"
          by simp_all
        have two: "list_all succeeded [(Send, None), (SourceFinalized, None :: error option)]"
          by (simp add: succeeded_def)
        have a: "prefix (map fst (calls v)) (expected_calls (sent_msgLogs r0))"
          using new(1,2) by (simp add: expected_calls_def sent)
        have b: "list_all succeeded (butlast (calls v))"
          unfolding new(1) using two new(3) by (rule butlast_append_ok)
        have c: "\<not> succeeded (last (calls v)) \<longrightarrow> err v \<noteq> None"
        proof (cases "new = []")
          case True
          then show ?thesis using new(1) by (simp add: succeeded_def)
        next
          case False
          then have "last (calls v) = last new" using new(1) by simp
          moreover have "last new \<in> set new" using False by simp
          ultimately show ?thesis using new(4) by (auto simp: list_all_iff)
        qed
        have d: "err v = None \<longrightarrow> map fst (calls v) = expected_calls (sent_msgLogs r0)"
          using new(1,4) by (simp add: expected_calls_def sent)
        have e: "calls v \<noteq> []" using new(1) by simp
        show ?thesis using r0 hd a b c d e by simp
      qed
    qed
  qed
qed


subsection \<open>The marks of the waits\<close>

text \<open>
  What each wait adds to the status logs of the requests, and that a run which keeps
  the ARM contract of the lane hands it on unchanged.
\<close>

lemma marks_UpdateState [simp]:
  "marks (UpdateState stat seqNum phase d status txs) = marks stat @ [(phase, status)]"
  by (simp add: marks_def UpdateState_def)

lemma keeps_ARM_Cons:
  "keeps_ARM (TickerC cc # sched) = keeps_ARM sched"
  "keeps_ARM (TimerC now # sched) = keeps_ARM sched"
  "keeps_ARM (Interleaved f # sched) =
     ((\<forall>lane lane'. f lane = Some lane' \<longrightarrow> Dest_ARM lane' = Dest_ARM lane) \<and> keeps_ARM sched)"
  by (simp_all add: keeps_ARM_def)

lemma marks_zip:
  "length events = length reqStat \<Longrightarrow>
   map (marks \<circ> (\<lambda>(stat, e). UpdateState stat (g e) phase d status txs)) (zip reqStat events) =
   map (\<lambda>stat. marks stat @ [(phase, status)]) reqStat"
  by (induction events reqStat rule: list_induct2) simp_all

lemma AssertEventCCIPSendRequested_loop_marks:
  "AssertEventCCIPSendRequested_loop txHash timeout prevEventAt reqStat c ops lane sched = Some r \<Longrightarrow>
   map marks (stats r) =
     map (\<lambda>stat. marks stat @ [(CCIPSendRe, if snd (snd (ret r)) = None then Success else Failure)]) reqStat \<and>
   (keeps_ARM sched \<longrightarrow> Dest_ARM (lane_after r) = Dest_ARM lane \<and> keeps_ARM (rest r))"
proof (induction sched arbitrary: lane c ops)
  case Nil
  then show ?case by simp
next
  case (Cons s sched)
  show ?case
  proof (cases s)
    case (TickerC cc)
    with Cons show ?thesis
      by (auto simp: keeps_ARM_Cons Let_def marks_zip split: option.splits any.splits if_splits)
  next
    case (TimerC now)
    with Cons show ?thesis
      by (auto simp: keeps_ARM_Cons o_def split: if_splits)
  next
    case (Interleaved f)
    with Cons.prems obtain lane' where f: "f lane = Some lane'"
      and run: "AssertEventCCIPSendRequested_loop txHash timeout prevEventAt reqStat c ops lane' sched = Some r"
      by (auto split: option.splits)
    from Cons.IH [OF run] f Interleaved show ?thesis
      by (auto simp: keeps_ARM_Cons)
  qed
qed

lemma AssertSeqNumberExecuted_loop_marks:
  "AssertSeqNumberExecuted_loop seqNumberBefore timeout timeNow reqStat c ops lane sched = Some r \<Longrightarrow>
   marks (stats r) = marks reqStat @ (if ret r = None then [] else [(Commit, Failure)]) \<and>
   (keeps_ARM sched \<longrightarrow> Dest_ARM (lane_after r) = Dest_ARM lane \<and> keeps_ARM (rest r))"
proof (induction sched arbitrary: lane c ops)
  case Nil
  then show ?case by simp
next
  case (Cons s sched)
  show ?case
  proof (cases s)
    case (TickerC cc)
    with Cons show ?thesis
      by (auto simp: keeps_ARM_Cons Let_def  split: option.splits any.splits if_splits)
  next
    case (TimerC now)
    with Cons show ?thesis
      by (auto simp: keeps_ARM_Cons o_def split: if_splits)
  next
    case (Interleaved f)
    with Cons.prems obtain lane' where f: "f lane = Some lane'"
      and run: "AssertSeqNumberExecuted_loop seqNumberBefore timeout timeNow reqStat c ops lane' sched = Some r"
      by (auto split: option.splits)
    from Cons.IH [OF run] f Interleaved show ?thesis
      by (auto simp: keeps_ARM_Cons)
  qed
qed

lemma AssertEventReportAccepted_loop_marks:
  "AssertEventReportAccepted_loop seqNum timeout prevEventAt reqStat c ops lane sched = Some r \<Longrightarrow>
   marks (stats r) = marks reqStat @ [(Commit, if snd (snd (ret r)) = None then Success else Failure)] \<and>
   (keeps_ARM sched \<longrightarrow> Dest_ARM (lane_after r) = Dest_ARM lane \<and> keeps_ARM (rest r))"
proof (induction sched arbitrary: lane c ops)
  case Nil
  then show ?case by simp
next
  case (Cons s sched)
  show ?case
  proof (cases s)
    case (TickerC cc)
    with Cons show ?thesis
      by (auto simp: keeps_ARM_Cons Let_def  split: option.splits any.splits if_splits)
  next
    case (TimerC now)
    with Cons show ?thesis
      by (auto simp: keeps_ARM_Cons o_def split: if_splits)
  next
    case (Interleaved f)
    with Cons.prems obtain lane' where f: "f lane = Some lane'"
      and run: "AssertEventReportAccepted_loop seqNum timeout prevEventAt reqStat c ops lane' sched = Some r"
      by (auto split: option.splits)
    from Cons.IH [OF run] f Interleaved show ?thesis
      by (auto simp: keeps_ARM_Cons)
  qed
qed

lemma AssertReportBlessed_loop_marks:
  "AssertReportBlessed_loop seqNum timeout CommitReport prevEventAt reqStat c ops lane sched = Some r \<Longrightarrow>
   marks (stats r) = marks reqStat @ [(ReportBlessed, if snd (ret r) = None then Success else Failure)] \<and>
   (keeps_ARM sched \<longrightarrow> Dest_ARM (lane_after r) = Dest_ARM lane \<and> keeps_ARM (rest r))"
proof (induction sched arbitrary: lane c ops)
  case Nil
  then show ?case by simp
next
  case (Cons s sched)
  show ?case
  proof (cases s)
    case (TickerC cc)
    with Cons show ?thesis
      by (auto simp: keeps_ARM_Cons Let_def  split: option.splits any.splits if_splits)
  next
    case (TimerC now)
    with Cons show ?thesis
      by (auto simp: keeps_ARM_Cons o_def split: if_splits)
  next
    case (Interleaved f)
    with Cons.prems obtain lane' where f: "f lane = Some lane'"
      and run: "AssertReportBlessed_loop seqNum timeout CommitReport prevEventAt reqStat c ops lane' sched = Some r"
      by (auto split: option.splits)
    from Cons.IH [OF run] f Interleaved show ?thesis
      by (auto simp: keeps_ARM_Cons)
  qed
qed

lemma AssertEventExecutionStateChanged_loop_marks:
  "AssertEventExecutionStateChanged_loop seqNum timeout timeNow reqStat execState c ops lane sched = Some r \<Longrightarrow>
   marks (stats r) = marks reqStat @ [(ExecStateChanged, if snd (ret r) = None then Success else Failure)] \<and>
   (keeps_ARM sched \<longrightarrow> Dest_ARM (lane_after r) = Dest_ARM lane \<and> keeps_ARM (rest r))"
proof (induction sched arbitrary: lane c ops)
  case Nil
  then show ?case by simp
next
  case (Cons s sched)
  show ?case
  proof (cases s)
    case (TickerC cc)
    with Cons show ?thesis
      by (auto simp: keeps_ARM_Cons Let_def  split: option.splits any.splits if_splits)
  next
    case (TimerC now)
    with Cons show ?thesis
      by (auto simp: keeps_ARM_Cons o_def split: if_splits)
  next
    case (Interleaved f)
    with Cons.prems obtain lane' where f: "f lane = Some lane'"
      and run: "AssertEventExecutionStateChanged_loop seqNum timeout timeNow reqStat execState c ops lane' sched = Some r"
      by (auto split: option.splits)
    from Cons.IH [OF run] f Interleaved show ?thesis
      by (auto simp: keeps_ARM_Cons)
  qed
qed

lemma marks_wait:
  "AssertEventCCIPSendRequested txHash timeout prevEventAt reqStat lane sched = Some r0 \<Longrightarrow>
     map marks (stats r0) =
       map (\<lambda>stat. marks stat @ [(CCIPSendRe, if snd (snd (ret r0)) = None then Success else Failure)]) reqStat \<and>
     (keeps_ARM sched \<longrightarrow> Dest_ARM (lane_after r0) = Dest_ARM lane \<and> keeps_ARM (rest r0))"
  "AssertSeqNumberExecuted seqNum timeout prevEventAt stat lane sched = Some r1 \<Longrightarrow>
     marks (stats r1) = marks stat @ (if ret r1 = None then [] else [(Commit, Failure)]) \<and>
     (keeps_ARM sched \<longrightarrow> Dest_ARM (lane_after r1) = Dest_ARM lane \<and> keeps_ARM (rest r1))"
  "AssertEventReportAccepted seqNum timeout prevEventAt stat lane sched = Some r2 \<Longrightarrow>
     marks (stats r2) = marks stat @ [(Commit, if snd (snd (ret r2)) = None then Success else Failure)] \<and>
     (keeps_ARM sched \<longrightarrow> Dest_ARM (lane_after r2) = Dest_ARM lane \<and> keeps_ARM (rest r2))"
  "AssertEventExecutionStateChanged seqNum timeout prevEventAt stat execState lane sched = Some r4 \<Longrightarrow>
     marks (stats r4) = marks stat @ [(ExecStateChanged, if snd (ret r4) = None then Success else Failure)] \<and>
     (keeps_ARM sched \<longrightarrow> Dest_ARM (lane_after r4) = Dest_ARM lane \<and> keeps_ARM (rest r4))"
  unfolding AssertEventCCIPSendRequested_def AssertSeqNumberExecuted_def AssertEventReportAccepted_def
    AssertEventExecutionStateChanged_def
  by (rule AssertEventCCIPSendRequested_loop_marks AssertSeqNumberExecuted_loop_marks
      AssertEventReportAccepted_loop_marks AssertEventExecutionStateChanged_loop_marks, assumption)+

lemma AssertReportBlessed_marks:
  assumes "AssertReportBlessed seqNum timeout CommitReport prevEventAt stat lane sched = Some r3"
  shows "marks (stats r3) =
           marks stat @ (if snd (ret r3) \<noteq> None then [(ReportBlessed, Failure)]
                         else if Dest_ARM lane then [(ReportBlessed, Success)] else [])"
    and "snd (ret r3) \<noteq> None \<Longrightarrow> Dest_ARM lane"
    and "keeps_ARM sched \<Longrightarrow> Dest_ARM (lane_after r3) = Dest_ARM lane \<and> keeps_ARM (rest r3)"
proof -
  show "marks (stats r3) =
           marks stat @ (if snd (ret r3) \<noteq> None then [(ReportBlessed, Failure)]
                         else if Dest_ARM lane then [(ReportBlessed, Success)] else [])"
  proof (cases "Dest_ARM lane")
    case True
    with assms have "AssertReportBlessed_loop seqNum timeout CommitReport prevEventAt stat 0 [NewTimer timeout] lane sched = Some r3"
      by (simp add: AssertReportBlessed_def)
    from AssertReportBlessed_loop_marks [OF this] True show ?thesis by auto
  next
    case False
    with assms show ?thesis by (auto simp: AssertReportBlessed_def)
  qed
  show "Dest_ARM lane" if "snd (ret r3) \<noteq> None"
    using assms that by (cases "Dest_ARM lane") (auto simp: AssertReportBlessed_def)
  show "Dest_ARM (lane_after r3) = Dest_ARM lane \<and> keeps_ARM (rest r3)" if "keeps_ARM sched"
  proof (cases "Dest_ARM lane")
    case True
    with assms have "AssertReportBlessed_loop seqNum timeout CommitReport prevEventAt stat 0 [NewTimer timeout] lane sched = Some r3"
      by (simp add: AssertReportBlessed_def)
    from AssertReportBlessed_loop_marks [OF this] that show ?thesis by auto
  next
    case False
    with assms that show ?thesis by (auto simp: AssertReportBlessed_def)
  qed
qed

lemma track_append:
  "track arm state (xs @ ys) = (case track arm state xs of None \<Rightarrow> None | Some state' \<Rightarrow> track arm state' ys)"
  by (induction xs arbitrary: state) (auto split: option.splits)

lemma find_reqStat_less: "find_reqStat seqNumber reqStats = Some i \<Longrightarrow> i < length reqStats"
  by (induction reqStats arbitrary: i) (auto split: if_splits)

text \<open>One round that ends the validation: only the request of the round got new marks.\<close>

lemma round_failed:
  assumes i: "i < length reqStats"
    and x: "marks x = marks (reqStats ! i) @ block"
    and block: "\<And>s. awaiting_dest s \<Longrightarrow> \<exists>s'. track arm s block = Some s'"
    and e: "e \<noteq> None"
  shows "length (reqStats[i := x]) = length reqStats \<and>
     (\<forall>k<length reqStats. \<exists>new. marks (reqStats[i := x] ! k) = marks (reqStats ! k) @ new \<and>
         (\<forall>s. awaiting_dest s \<longrightarrow>
            (\<exists>s'. track arm s new = Some s' \<and> (e = None \<longrightarrow> awaiting_dest s'))))"
proof (intro conjI allI impI)
  show "length (reqStats[i := x]) = length reqStats" by simp
next
  fix k assume k: "k < length reqStats"
  show "\<exists>new. marks (reqStats[i := x] ! k) = marks (reqStats ! k) @ new \<and>
         (\<forall>s. awaiting_dest s \<longrightarrow>
            (\<exists>s'. track arm s new = Some s' \<and> (e = None \<longrightarrow> awaiting_dest s')))"
  proof (cases "k = i")
    case True
    then show ?thesis using i x block e
      by (intro exI [of _ block]) auto
  next
    case False
    then show ?thesis using e
      by (intro exI [of _ "[]"]) auto
  qed
qed

text \<open>One complete round followed by the rest of the validation.\<close>

lemma round_done:
  assumes i: "i < length reqStats"
    and x: "marks x = marks (reqStats ! i) @ block"
    and block: "\<And>s. awaiting_dest s \<Longrightarrow> track arm s block = Some Completed"
    and later: "length after = length (reqStats[i := x]) \<and>
     (\<forall>k<length (reqStats[i := x]). \<exists>new. marks (after ! k) = marks (reqStats[i := x] ! k) @ new \<and>
         (\<forall>s. awaiting_dest s \<longrightarrow>
            (\<exists>s'. track arm s new = Some s' \<and> (e = None \<longrightarrow> awaiting_dest s'))))"
  shows "length after = length reqStats \<and>
     (\<forall>k<length reqStats. \<exists>new. marks (after ! k) = marks (reqStats ! k) @ new \<and>
         (\<forall>s. awaiting_dest s \<longrightarrow>
            (\<exists>s'. track arm s new = Some s' \<and> (e = None \<longrightarrow> awaiting_dest s'))))"
proof (intro conjI allI impI)
  show "length after = length reqStats" using later by simp
next
  fix k assume k: "k < length reqStats"
  with later obtain new where new: "marks (after ! k) = marks (reqStats[i := x] ! k) @ new"
    and tr: "\<And>s. awaiting_dest s \<Longrightarrow> \<exists>s'. track arm s new = Some s' \<and> (e = None \<longrightarrow> awaiting_dest s')"
    by force
  show "\<exists>new. marks (after ! k) = marks (reqStats ! k) @ new \<and>
         (\<forall>s. awaiting_dest s \<longrightarrow>
            (\<exists>s'. track arm s new = Some s' \<and> (e = None \<longrightarrow> awaiting_dest s')))"
  proof (cases "k = i")
    case True
    have compl: "awaiting_dest Completed" by (simp add: awaiting_dest_def)
    have "marks (after ! k) = marks (reqStats ! k) @ (block @ new)"
      using new True i x by simp
    moreover have "\<exists>s'. track arm s (block @ new) = Some s' \<and> (e = None \<longrightarrow> awaiting_dest s')"
      if "awaiting_dest s" for s
      using block [OF that] tr [OF compl] by (simp add: track_append)
    ultimately show ?thesis by (intro exI [of _ "block @ new"]) simp
  next
    case False
    then have "marks (after ! k) = marks (reqStats ! k) @ new" using new by simp
    then show ?thesis using tr by (intro exI [of _ new]) simp
  qed
qed

lemma known_ARM_after:
  "known_ARM arm lane sched \<Longrightarrow>
   (keeps_ARM sched \<longrightarrow> Dest_ARM lane' = Dest_ARM lane \<and> keeps_ARM sched') \<Longrightarrow>
   known_ARM arm lane' sched'"
  by (auto simp: known_ARM_def)

lemma known_ARM_real: "known_ARM arm lane sched \<Longrightarrow> Dest_ARM lane \<Longrightarrow> arm \<noteq> Some False"
  by (auto simp: known_ARM_def)

lemma known_ARM_mock: "known_ARM arm lane sched \<Longrightarrow> \<not> Dest_ARM lane \<Longrightarrow> arm \<noteq> Some True"
  by (auto simp: known_ARM_def)

lemma track_Commit_Failure:
  "awaiting_dest s \<Longrightarrow> \<exists>s'. track arm s [(Commit, Failure)] = Some s'"
  by (auto simp: awaiting_dest_def closing_def)

lemma track_Commit_any:
  "awaiting_dest s \<Longrightarrow> status \<noteq> Pending \<Longrightarrow> \<exists>s'. track arm s [(Commit, status)] = Some s'"
  by (cases status) (auto simp: awaiting_dest_def closing_def)

lemma track_blessing_failed:
  "awaiting_dest s \<Longrightarrow> arm \<noteq> Some False \<Longrightarrow>
   \<exists>s'. track arm s [(Commit, Success), (ReportBlessed, Failure)] = Some s'"
  by (auto simp: awaiting_dest_def closing_def)

lemma track_round:
  assumes "awaiting_dest s"
    and "blessed \<Longrightarrow> arm \<noteq> Some False" and "\<not> blessed \<Longrightarrow> arm \<noteq> Some True"
  shows "track arm s ([(Commit, Success)] @ (if blessed then [(ReportBlessed, Success)] else []) @
                       [(ExecStateChanged, Success)]) = Some Completed"
    and "\<exists>s'. track arm s ([(Commit, Success)] @ (if blessed then [(ReportBlessed, Success)] else []) @
                       [(ExecStateChanged, Failure)]) = Some s'"
  using assms by (auto simp: awaiting_dest_def closing_def)

lemma msgLogs_marks:
  "ValidateRequestByTxHash_msgLogs T at ex msgLogs reqStats lane cs sched = Some v \<Longrightarrow>
   known_ARM arm lane sched \<Longrightarrow>
   length (reqStats_after v) = length reqStats \<and>
     (\<forall>k<length reqStats. \<exists>new. marks (reqStats_after v ! k) = marks (reqStats ! k) @ new \<and>
         (\<forall>s. awaiting_dest s \<longrightarrow>
            (\<exists>s'. track arm s new = Some s' \<and> (err v = None \<longrightarrow> awaiting_dest s'))))"
proof (induction msgLogs arbitrary: reqStats lane cs sched v)
  case Nil
  then have "reqStats_after v = reqStats" "err v = None" by auto
  then show ?case
    by (auto intro!: exI [of _ "[]"])
next
  case (Cons msgLog msgLogs)
  let ?s = "Message_SequenceNumber msgLog"
  note run = Cons.prems(1)
  note known = Cons.prems(2)
  show ?case
  proof (cases "find_reqStat ?s reqStats")
    case None
    with run have "reqStats_after v = reqStats" "err v \<noteq> None" by auto
    then show ?thesis
      by (auto intro!: exI [of _ "[]"])
  next
    case (Some i)
    note found = this
    then have i: "i < length reqStats" by (rule find_reqStat_less)
    obtain r1 where r1: "AssertSeqNumberExecuted ?s T at (reqStats ! i) lane sched = Some r1"
    proof (cases "AssertSeqNumberExecuted ?s T at (reqStats ! i) lane sched")
      case None
      with run found have False by simp
      then show ?thesis ..
    next
      case (Some r)
      then show ?thesis using that by blast
    qed
    note m1 = marks_wait(2) [OF r1]
    have known1: "known_ARM arm (lane_after r1) (rest r1)"
      using known m1 by (auto simp: known_ARM_def)
    show ?thesis
    proof (cases "ret r1")
      case (Some e1)
      with run found r1 have v: "reqStats_after v = reqStats[i := stats r1]" "err v \<noteq> None"
        by (auto simp: Let_def)
      have x: "marks (stats r1) = marks (reqStats ! i) @ [(Commit, Failure)]"
        using m1 Some by simp
      show ?thesis
        unfolding v(1) using i x track_Commit_Failure v(2) by (rule round_failed)
    next
      case None
      note ok1 = this
      have x1: "marks (stats r1) = marks (reqStats ! i)" using m1 ok1 by simp
      let ?st1 = "reqStats[i := stats r1]"
      have st1: "?st1 ! i = stats r1" using i by simp
      obtain r2 where r2: "AssertEventReportAccepted ?s T at (?st1 ! i) (lane_after r1) (rest r1) = Some r2"
      proof (cases "AssertEventReportAccepted ?s T at (?st1 ! i) (lane_after r1) (rest r1)")
        case None
        with run found r1 ok1 have False by (simp add: Let_def)
        then show ?thesis ..
      next
        case (Some r)
        then show ?thesis using that by blast
      qed
      note m2 = marks_wait(3) [OF r2]
      have known2: "known_ARM arm (lane_after r2) (rest r2)"
        using known1 m2 by (auto simp: known_ARM_def)
      obtain commitReport reportAcceptedAt err2 where ret2: "ret r2 = (commitReport, reportAcceptedAt, err2)"
        by (cases "ret r2") auto
      have x2: "marks (stats r2) = marks (reqStats ! i) @ [(Commit, if err2 = None then Success else Failure)]"
        using m2 ret2 st1 x1 by simp
      have failed2: ?thesis if "reqStats_after v = reqStats[i := stats r2]" "err v \<noteq> None"
        unfolding that(1) using i x2 _ that(2)
      proof (rule round_failed)
        fix s :: tracker assume "awaiting_dest s"
        then show "\<exists>s'. track arm s [(Commit, if err2 = None then Success else Failure)] = Some s'"
          by (rule track_Commit_any) simp
      qed
      show ?thesis
      proof (cases err2)
        case (Some e2)
        with run found r1 ok1 r2 ret2 have "reqStats_after v = reqStats[i := stats r2]" "err v \<noteq> None"
          by (auto simp: Let_def)
        then show ?thesis by (rule failed2)
      next
        case None
        note ok2 = this
        show ?thesis
        proof (cases commitReport)
          case None
          with run found r1 ok1 r2 ret2 ok2 have "reqStats_after v = reqStats[i := stats r2]" "err v \<noteq> None"
            by (auto simp: Let_def)
          then show ?thesis by (rule failed2)
        next
          case (Some report)
          note rep = this
          let ?st2 = "?st1[i := stats r2]"
          have st2: "?st2 ! i = stats r2" using i by simp
          obtain r3 where r3: "AssertReportBlessed ?s T report reportAcceptedAt (?st2 ! i) (lane_after r2) (rest r2) = Some r3"
          proof (cases "AssertReportBlessed ?s T report reportAcceptedAt (?st2 ! i) (lane_after r2) (rest r2)")
            case None
            with run found r1 ok1 r2 ret2 ok2 rep have False by (simp add: Let_def)
            then show ?thesis ..
          next
            case (Some r)
            then show ?thesis using that by blast
          qed
          note m3 = AssertReportBlessed_marks [OF r3]
          have known3: "known_ARM arm (lane_after r3) (rest r3)"
            using known2 m3(3) by (auto simp: known_ARM_def)
          obtain reportBlessedAt err3 where ret3: "ret r3 = (reportBlessedAt, err3)"
            by (cases "ret r3") auto
          show ?thesis
          proof (cases err3)
            case (Some e3)
            with run found r1 ok1 r2 ret2 ok2 rep r3 ret3
            have v: "reqStats_after v = reqStats[i := stats r3]" "err v \<noteq> None"
              by (auto simp: Let_def)
            have "Dest_ARM (lane_after r2)" using m3(2) ret3 Some by simp
            with known2 have real: "arm \<noteq> Some False" by (rule known_ARM_real)
            have x3: "marks (stats r3) = marks (reqStats ! i) @ [(Commit, Success), (ReportBlessed, Failure)]"
              using m3(1) ret3 Some st2 x2 ok2 by simp
            show ?thesis
              unfolding v(1) using i x3 _ v(2)
            proof (rule round_failed)
              fix s :: tracker assume "awaiting_dest s"
              then show "\<exists>s'. track arm s [(Commit, Success), (ReportBlessed, Failure)] = Some s'"
                using real by (rule track_blessing_failed)
            qed
          next
            case None
            note ok3 = this
            let ?blessed = "Dest_ARM (lane_after r2)"
            have x3: "marks (stats r3) = marks (reqStats ! i) @ [(Commit, Success)] @
                        (if ?blessed then [(ReportBlessed, Success)] else [])"
              using m3(1) ret3 ok3 st2 x2 ok2 by simp
            have real: "?blessed \<Longrightarrow> arm \<noteq> Some False" using known2 by (rule known_ARM_real)
            have mock: "\<not> ?blessed \<Longrightarrow> arm \<noteq> Some True" using known2 by (rule known_ARM_mock)
            let ?st3 = "?st2[i := stats r3]"
            have st3: "?st3 ! i = stats r3" using i by simp
            obtain r4 where r4: "AssertEventExecutionStateChanged ?s T reportBlessedAt (?st3 ! i) ex (lane_after r3) (rest r3) = Some r4"
            proof (cases "AssertEventExecutionStateChanged ?s T reportBlessedAt (?st3 ! i) ex (lane_after r3) (rest r3)")
              case None
              with run found r1 ok1 r2 ret2 ok2 rep r3 ret3 ok3 have False by (simp add: Let_def)
              then show ?thesis ..
            next
              case (Some r)
              then show ?thesis using that by blast
            qed
            note m4 = marks_wait(4) [OF r4]
            have known4: "known_ARM arm (lane_after r4) (rest r4)"
              using known3 m4 by (auto simp: known_ARM_def)
            show ?thesis
            proof (cases "snd (ret r4)")
              case (Some e4)
              with run found r1 ok1 r2 ret2 ok2 rep r3 ret3 ok3 r4
              have v: "reqStats_after v = reqStats[i := stats r4]" "err v \<noteq> None"
                by (auto simp: Let_def)
              have x4: "marks (stats r4) = marks (reqStats ! i) @
                          ([(Commit, Success)] @ (if ?blessed then [(ReportBlessed, Success)] else []) @
                           [(ExecStateChanged, Failure)])"
                using m4 Some st3 x3 by simp
              show ?thesis
                unfolding v(1) using i x4 _ v(2)
              proof (rule round_failed)
                fix s :: tracker assume "awaiting_dest s"
                then show "\<exists>s'. track arm s ([(Commit, Success)] @ (if ?blessed then [(ReportBlessed, Success)] else []) @
                           [(ExecStateChanged, Failure)]) = Some s'"
                  using real mock by (rule track_round(2))
              qed
            next
              case None
              note ok4 = this
              have x4: "marks (stats r4) = marks (reqStats ! i) @
                          ([(Commit, Success)] @ (if ?blessed then [(ReportBlessed, Success)] else []) @
                           [(ExecStateChanged, Success)])"
                using m4 None st3 x3 by simp
              let ?four = "[(DestSeqIncrement ?s, None :: error option), (ReportAccepted ?s, None),
                            (ReportBlessedWait ?s, None), (ExecutionStateChanged ?s, None)]"
              from run found r1 ok1 r2 ret2 ok2 rep r3 ret3 ok3 r4 ok4
              have rec: "ValidateRequestByTxHash_msgLogs T at ex msgLogs (reqStats[i := stats r4]) (lane_after r4)
                           (cs @ ?four) (rest r4) = Some v"
                by (simp add: Let_def)
              note later = Cons.IH [OF rec known4]
              show ?thesis
                using i x4 _ later
              proof (rule round_done)
                fix s :: tracker assume "awaiting_dest s"
                then show "track arm s ([(Commit, Success)] @ (if ?blessed then [(ReportBlessed, Success)] else []) @
                           [(ExecStateChanged, Success)]) = Some Completed"
                  using real mock by (rule track_round(1))
              qed
            qed
          qed
        qed
      qed
    qed
  qed
qed

lemma AssertSendRequestedLogFinalized_marks:
  "AssertSendRequestedLogFinalized txHash prevEventAt reqStats answer = ((at, blockNum, e), reqStats1) \<Longrightarrow>
   map marks reqStats1 =
     map (\<lambda>stat. marks stat @ [(SourceLogFinalized, if e = None then Success else Failure)]) reqStats"
  by (auto simp: AssertSendRequestedLogFinalized_def o_def split: option.splits)

lemma nth_marks:
  "map marks after = map (\<lambda>stat. marks stat @ block) before \<Longrightarrow>
   length after = length before \<and> (\<forall>k<length before. marks (after ! k) = marks (before ! k) @ block)"
proof -
  assume eq: "map marks after = map (\<lambda>stat. marks stat @ block) before"
  then have len: "length after = length before" by (rule map_eq_imp_length_eq)
  have "marks (after ! k) = marks (before ! k) @ block" if "k < length before" for k
  proof -
    have "map marks after ! k = map (\<lambda>stat. marks stat @ block) before ! k" using eq by simp
    then show ?thesis using that len by simp
  qed
  with len show ?thesis by simp
qed

lemma ValidateRequestByTxHash_marks:
  assumes run: "ValidateRequestByTxHash T ccipRequests txHash ex answer t lane sched = Some (Return v t')"
    and known: "known_ARM arm lane sched"
  shows "length (reqStats_after v) = length ccipRequests \<and>
     (\<forall>k<length ccipRequests. \<exists>new state.
         marks (reqStats_after v ! k) = marks (Req_RequestStat (ccipRequests ! k)) @ new \<and>
         track arm AwaitingSendConfirmed new = Some state \<and>
         (err v = None \<longrightarrow> awaiting_dest state))"
proof (cases ccipRequests)
  case Nil
  with run show ?thesis by (simp add: ValidateRequestByTxHash_def)
next
  case (Cons first others)
  let ?reqStats = "map Req_RequestStat ccipRequests"
  note run' = run [unfolded ValidateRequestByTxHash_def]
  have orig: "marks (?reqStats ! k) = marks (Req_RequestStat (ccipRequests ! k))" if "k < length ccipRequests" for k
    using that by simp
  obtain r0 where r0: "AssertEventCCIPSendRequested txHash T (txConfirmationTimestamp first) ?reqStats lane sched = Some r0"
  proof (cases "AssertEventCCIPSendRequested txHash T (txConfirmationTimestamp first) ?reqStats lane sched")
    case None
    with run' Cons have False by (simp add: Let_def)
    then show ?thesis ..
  next
    case (Some r)
    then show ?thesis using that by blast
  qed
  note m0 = marks_wait(1) [OF r0]
  have known0: "known_ARM arm (lane_after r0) (rest r0)"
    using known m0 by (auto simp: known_ARM_def)
  obtain msgLogs ccipSendReqGenAt err0 where ret0: "ret r0 = (msgLogs, ccipSendReqGenAt, err0)"
    by (cases "ret r0") auto
  from m0 ret0 have "map marks (stats r0) =
      map (\<lambda>stat. marks stat @ [(CCIPSendRe, if err0 = None then Success else Failure)]) ?reqStats"
    by simp
  from nth_marks [OF this]
  have len0: "length (stats r0) = length ccipRequests"
    and n0: "\<And>k. k < length ccipRequests \<Longrightarrow>
        marks (stats r0 ! k) = marks (Req_RequestStat (ccipRequests ! k)) @
          [(CCIPSendRe, if err0 = None then Success else Failure)]"
    by simp_all
  have failed0: ?thesis if "reqStats_after v = stats r0" "err v \<noteq> None"
  proof (intro conjI allI impI)
    show "length (reqStats_after v) = length ccipRequests" using that len0 by simp
  next
    fix k assume k: "k < length ccipRequests"
    have "\<exists>state. track arm AwaitingSendConfirmed [(CCIPSendRe, if err0 = None then Success else Failure)] = Some state"
      by (simp add: closing_def)
    then show "\<exists>new state.
         marks (reqStats_after v ! k) = marks (Req_RequestStat (ccipRequests ! k)) @ new \<and>
         track arm AwaitingSendConfirmed new = Some state \<and>
         (err v = None \<longrightarrow> awaiting_dest state)"
      using that n0 [OF k]
      by (intro exI [of _ "[(CCIPSendRe, if err0 = None then Success else Failure)]"]) auto
  qed
  show ?thesis
  proof (cases err0)
    case (Some e0)
    with run' Cons r0 ret0 have "reqStats_after v = stats r0" "err v \<noteq> None"
      by (auto simp: Let_def)
    then show ?thesis by (rule failed0)
  next
    case None
    note ok0 = this
    show ?thesis
    proof (cases msgLogs)
      case None
      with run' Cons r0 ret0 ok0 have "reqStats_after v = stats r0" "err v \<noteq> None"
        by (auto simp: Let_def)
      then show ?thesis by (rule failed0)
    next
      case (Some logs)
      note logs = this
      obtain sourceLogFinalizedAt blockNum err1 reqStats1
        where fin: "AssertSendRequestedLogFinalized txHash ccipSendReqGenAt (stats r0) answer =
                      ((sourceLogFinalizedAt, blockNum, err1), reqStats1)"
        by (cases "AssertSendRequestedLogFinalized txHash ccipSendReqGenAt (stats r0) answer") auto
      from nth_marks [OF AssertSendRequestedLogFinalized_marks [OF fin]] len0
      have len1: "length reqStats1 = length ccipRequests"
        and n1': "\<And>k. k < length ccipRequests \<Longrightarrow>
          marks (reqStats1 ! k) = marks (stats r0 ! k) @
            [(SourceLogFinalized, if err1 = None then Success else Failure)]"
        by simp_all
      have n1: "marks (reqStats1 ! k) = marks (Req_RequestStat (ccipRequests ! k)) @
            [(CCIPSendRe, Success), (SourceLogFinalized, if err1 = None then Success else Failure)]"
        if "k < length ccipRequests" for k
        using n1' [OF that] n0 [OF that] ok0 by simp
      show ?thesis
      proof (cases err1)
        case (Some e1)
        with run' Cons r0 ret0 ok0 logs fin
        have v: "reqStats_after v = reqStats1" "err v \<noteq> None"
          by (auto simp: Let_def)
        show ?thesis
        proof (intro conjI allI impI)
          show "length (reqStats_after v) = length ccipRequests" using v len1 by simp
        next
          fix k assume k: "k < length ccipRequests"
          show "\<exists>new state.
             marks (reqStats_after v ! k) = marks (Req_RequestStat (ccipRequests ! k)) @ new \<and>
             track arm AwaitingSendConfirmed new = Some state \<and>
             (err v = None \<longrightarrow> awaiting_dest state)"
            using v n1 [OF k] Some
            by (intro exI [of _ "[(CCIPSendRe, Success), (SourceLogFinalized, Failure)]"])
               (auto simp: closing_def)
        qed
      next
        case None
        note ok1 = this
        from run' Cons r0 ret0 ok0 logs fin ok1
        have rec: "ValidateRequestByTxHash_msgLogs T sourceLogFinalizedAt ex logs reqStats1 (lane_after r0)
                     [(Send, None), (SourceFinalized, None)] (rest r0) = Some v"
          by (auto simp: Let_def)
        note later = msgLogs_marks [OF rec known0]
        have start: "awaiting_dest AwaitingDestSeqIncrement" by (simp add: awaiting_dest_def)
        show ?thesis
        proof (intro conjI allI impI)
          show "length (reqStats_after v) = length ccipRequests" using later len1 by simp
        next
          fix k assume k: "k < length ccipRequests"
          with later len1 obtain new where new: "marks (reqStats_after v ! k) = marks (reqStats1 ! k) @ new"
            and tr: "\<And>s. awaiting_dest s \<Longrightarrow> \<exists>s'. track arm s new = Some s' \<and> (err v = None \<longrightarrow> awaiting_dest s')"
            by force
          from tr [OF start] obtain state where
            state: "track arm AwaitingDestSeqIncrement new = Some state" "err v = None \<longrightarrow> awaiting_dest state"
            by (elim exE conjE)
          have whole: "marks (reqStats_after v ! k) = marks (Req_RequestStat (ccipRequests ! k)) @
                  ([(CCIPSendRe, Success), (SourceLogFinalized, Success)] @ new)"
            using new n1 [OF k] ok1 by simp
          have tracked: "track arm AwaitingSendConfirmed ([(CCIPSendRe, Success), (SourceLogFinalized, Success)] @ new) = Some state"
            using state(1) by (simp add: closing_def)
          show "\<exists>new state.
             marks (reqStats_after v ! k) = marks (Req_RequestStat (ccipRequests ! k)) @ new \<and>
             track arm AwaitingSendConfirmed new = Some state \<and>
             (err v = None \<longrightarrow> awaiting_dest state)"
            by (intro exI [of _ "[(CCIPSendRe, Success), (SourceLogFinalized, Success)] @ new"]
                  exI [of _ state] conjI) (rule whole, rule tracked, rule state(2))
        qed
      qed
    qed
  qed
qed

lemma callbacks_keep_ARM:
  "on_CCIPSendRequested e1 lane = Some lane' \<longrightarrow> Dest_ARM lane' = Dest_ARM lane"
  "on_ReportAccepted e2 lane = Some lane' \<longrightarrow> Dest_ARM lane' = Dest_ARM lane"
  "on_TaggedRootBlessed e3 lane = Some lane' \<longrightarrow> Dest_ARM lane' = Dest_ARM lane"
  "on_ExecutionStateChanged e4 lane = Some lane' \<longrightarrow> Dest_ARM lane' = Dest_ARM lane"
  by (auto simp: on_CCIPSendRequested_def on_ReportAccepted_def on_TaggedRootBlessed_def
      on_ExecutionStateChanged_def Let_def split: option.splits any.splits)

lemma runs_keep_ARM: "keeps_ARM complete_run" "keeps_ARM failing_run"
  by (simp_all add: keeps_ARM_def complete_run_def failing_run_def callbacks_keep_ARM)

subsection \<open>The claim\<close>

text \<open>
  Claim C1. Whenever \<^verbatim>\<open>ValidateRequestByTxHash\<close> returns, the waits it has called are,
  in the order of the calls, a beginning of the fixed order Send, SourceFinalized and
  then, for each message that the send-requested wait returned, DestSeqIncrement,
  ReportAccepted, ReportBlessed, ExecutionStateChanged. Every call but the last had
  returned without error when the next one was made; when the last call returned an
  error the function returns an error, no further wait having been called; and the
  function returns no error only after the whole order. The marks that the validation
  has added to the status log of each request follow the state machine of a request
  from its first state: a phase is marked only in the state that awaits it, so it is
  marked Success only after its predecessor was marked Success, and nothing is marked
  after a Failure; when the function returns no error every round of the request is
  complete. With a real ARM contract, which the run keeps, the execution is marked only
  after the blessing; with a mock the blessing is never marked, although its wait is
  called and returns no error.
\<close>

theorem ValidateRequestByTxHash_phase_order:
  assumes "ValidateRequestByTxHash T ccipRequests txHash ex answer t lane sched = Some (Return v t')"
  shows "(\<exists>r0. AssertEventCCIPSendRequested txHash T (txConfirmationTimestamp (hd ccipRequests))
                 (map Req_RequestStat ccipRequests) lane sched = Some r0 \<and>
           calls v \<noteq> [] \<and>
           prefix (map fst (calls v)) (expected_calls (sent_msgLogs r0)) \<and>
           list_all succeeded (butlast (calls v)) \<and>
           (\<not> succeeded (last (calls v)) \<longrightarrow> err v \<noteq> None) \<and>
           (err v = None \<longrightarrow> map fst (calls v) = expected_calls (sent_msgLogs r0))) \<and>
         (\<forall>arm. known_ARM arm lane sched \<longrightarrow>
            length (reqStats_after v) = length ccipRequests \<and>
            (\<forall>k<length ccipRequests. \<exists>new state.
                marks (reqStats_after v ! k) = marks (Req_RequestStat (ccipRequests ! k)) @ new \<and>
                track arm AwaitingSendConfirmed new = Some state \<and>
                (err v = None \<longrightarrow> awaiting_dest state)))"
proof (rule conjI)
  show "\<exists>r0. AssertEventCCIPSendRequested txHash T (txConfirmationTimestamp (hd ccipRequests))
                 (map Req_RequestStat ccipRequests) lane sched = Some r0 \<and>
           calls v \<noteq> [] \<and>
           prefix (map fst (calls v)) (expected_calls (sent_msgLogs r0)) \<and>
           list_all succeeded (butlast (calls v)) \<and>
           (\<not> succeeded (last (calls v)) \<longrightarrow> err v \<noteq> None) \<and>
           (err v = None \<longrightarrow> map fst (calls v) = expected_calls (sent_msgLogs r0))"
    by (rule ValidateRequestByTxHash_calls [OF assms])
next
  show "\<forall>arm. known_ARM arm lane sched \<longrightarrow>
            length (reqStats_after v) = length ccipRequests \<and>
            (\<forall>k<length ccipRequests. \<exists>new state.
                marks (reqStats_after v ! k) = marks (Req_RequestStat (ccipRequests ! k)) @ new \<and>
                track arm AwaitingSendConfirmed new = Some state \<and>
                (err v = None \<longrightarrow> awaiting_dest state))"
  proof (intro allI impI)
    fix arm
    assume "known_ARM arm lane sched"
    with assms show "length (reqStats_after v) = length ccipRequests \<and>
            (\<forall>k<length ccipRequests. \<exists>new state.
                marks (reqStats_after v ! k) = marks (Req_RequestStat (ccipRequests ! k)) @ new \<and>
                track arm AwaitingSendConfirmed new = Some state \<and>
                (err v = None \<longrightarrow> awaiting_dest state))"
      by (rule ValidateRequestByTxHash_marks)
  qed
qed

text \<open>
  Three runs of one request: the complete run, which is also the scenario of the
  specification in which the wait for sequence number 7 is served by the blessing of
  the interval from 5 to 9; a run that fails at the accepted report; and the complete
  run on the lane with a mock ARM contract, where the wait for the blessing is called
  and marks nothing.
\<close>

lemma Store_interval_5_9: "Store_interval 5 9 v m = Some (\<lambda>k. if 5 \<le> k \<and> k \<le> 9 then Some v else m k)"
  by (rule Store_interval_terminates) simp

lemmas example_defs = example_send_def example_accepted_def example_blessed_def example_executed_def
  example_request_def example_finalized_def complete_run_def failing_run_def fresh_lane_def new_stat_def
  silent_client_def mock_lane_def

lemmas validation_defs = ValidateRequestByTxHash_def AssertEventCCIPSendRequested_def
  AssertSendRequestedLogFinalized_def AssertSeqNumberExecuted_def AssertEventReportAccepted_def
  AssertReportBlessed_def AssertEventExecutionStateChanged_def on_CCIPSendRequested_def
  on_ReportAccepted_def on_TaggedRootBlessed_def on_ExecutionStateChanged_def DeleteNilEntriesFromMap_def
  Store_interval_5_9 UpdateState_def Let_def

lemma complete_run_value:
  "\<exists>v. ValidateRequestByTxHash 30 [example_request] ''0xabc'' 2 example_finalized [] fresh_lane complete_run =
      Some (Return v []) \<and> err v = None \<and>
      calls v = [(Send, None), (SourceFinalized, None), (DestSeqIncrement 7, None), (ReportAccepted 7, None),
                 (ReportBlessedWait 7, None), (ExecutionStateChanged 7, None)] \<and>
      marks (reqStats_after v ! 0) =
        [(CCIPSendRe, Success), (SourceLogFinalized, Success), (Commit, Success), (ReportBlessed, Success),
         (ExecStateChanged, Success)]"
  by (simp add: example_defs validation_defs marks_def)

lemma failing_run_value:
  "\<exists>v. ValidateRequestByTxHash 30 [example_request] ''0xabc'' 2 example_finalized [] fresh_lane failing_run =
      Some (Return v []) \<and>
      calls v = [(Send, None), (SourceFinalized, None), (DestSeqIncrement 7, None),
                 (ReportAccepted 7, Some (Errorf ''ReportAccepted is not found for seq num %d lane %d-->%d''
                                            [Uint 7, Uint 1337, Num 2337]))] \<and>
      unconsumed v = [TickerC (silent_client 51)] \<and>
      marks (reqStats_after v ! 0) =
        [(CCIPSendRe, Success), (SourceLogFinalized, Success), (Commit, Failure)]"
  by (simp add: example_defs validation_defs marks_def)

lemma mock_run_value:
  "\<exists>v. ValidateRequestByTxHash 30 [example_request] ''0xabc'' 2 example_finalized [] mock_lane complete_run =
      Some (Return v []) \<and> err v = None \<and>
      calls v = [(Send, None), (SourceFinalized, None), (DestSeqIncrement 7, None), (ReportAccepted 7, None),
                 (ReportBlessedWait 7, None), (ExecutionStateChanged 7, None)] \<and>
      marks (reqStats_after v ! 0) =
        [(CCIPSendRe, Success), (SourceLogFinalized, Success), (Commit, Success), (ExecStateChanged, Success)]"
  by (simp add: example_defs validation_defs marks_def)

lemma example_runs_known_ARM:
  "known_ARM (Some True) fresh_lane complete_run"
  "known_ARM (Some True) fresh_lane failing_run"
  "known_ARM (Some False) mock_lane complete_run"
  by (simp_all add: known_ARM_def runs_keep_ARM fresh_lane_def mock_lane_def)

lemma example_request_unmarked: "marks (Req_RequestStat ([example_request] ! 0)) = []"
  by (simp add: example_request_def new_stat_def marks_def)

theorem ValidateRequestByTxHash_phase_order_witness:
  "(\<exists>v. ValidateRequestByTxHash 30 [example_request] ''0xabc'' 2 example_finalized [] fresh_lane complete_run =
        Some (Return v []) \<and>
        map fst (calls v) = [Send, SourceFinalized, DestSeqIncrement 7, ReportAccepted 7, ReportBlessedWait 7,
                             ExecutionStateChanged 7] \<and>
        list_all succeeded (butlast (calls v)) \<and> err v = None \<and>
        marks (reqStats_after v ! 0) =
          [(CCIPSendRe, Success), (SourceLogFinalized, Success), (Commit, Success), (ReportBlessed, Success),
           (ExecStateChanged, Success)] \<and>
        track (Some True) AwaitingSendConfirmed (marks (reqStats_after v ! 0)) = Some Completed) \<and>
   (\<exists>v. ValidateRequestByTxHash 30 [example_request] ''0xabc'' 2 example_finalized [] fresh_lane failing_run =
        Some (Return v []) \<and>
        map fst (calls v) = [Send, SourceFinalized, DestSeqIncrement 7, ReportAccepted 7] \<and>
        list_all succeeded (butlast (calls v)) \<and> \<not> succeeded (last (calls v)) \<and> err v \<noteq> None \<and>
        marks (reqStats_after v ! 0) =
          [(CCIPSendRe, Success), (SourceLogFinalized, Success), (Commit, Failure)] \<and>
        track (Some True) AwaitingSendConfirmed (marks (reqStats_after v ! 0)) = Some Failed) \<and>
   (\<exists>v. ValidateRequestByTxHash 30 [example_request] ''0xabc'' 2 example_finalized [] mock_lane complete_run =
        Some (Return v []) \<and>
        map fst (calls v) = [Send, SourceFinalized, DestSeqIncrement 7, ReportAccepted 7, ReportBlessedWait 7,
                             ExecutionStateChanged 7] \<and>
        list_all succeeded (butlast (calls v)) \<and> err v = None \<and>
        marks (reqStats_after v ! 0) =
          [(CCIPSendRe, Success), (SourceLogFinalized, Success), (Commit, Success), (ExecStateChanged, Success)] \<and>
        track (Some False) AwaitingSendConfirmed (marks (reqStats_after v ! 0)) = Some Completed)"
proof (intro conjI)
  from complete_run_value obtain v where
    run: "ValidateRequestByTxHash 30 [example_request] ''0xabc'' 2 example_finalized [] fresh_lane complete_run =
            Some (Return v [])"
    and ok: "err v = None"
    and cs: "calls v = [(Send, None), (SourceFinalized, None), (DestSeqIncrement 7, None), (ReportAccepted 7, None),
                        (ReportBlessedWait 7, None), (ExecutionStateChanged 7, None)]"
    and ms: "marks (reqStats_after v ! 0) =
        [(CCIPSendRe, Success), (SourceLogFinalized, Success), (Commit, Success), (ReportBlessed, Success),
         (ExecStateChanged, Success)]"
    by (elim exE conjE)
  note order = ValidateRequestByTxHash_phase_order [OF run]
  from order [THEN conjunct1]
  have waits: "list_all succeeded (butlast (calls v))" by (elim exE conjE)
  have "\<exists>new state. marks (reqStats_after v ! 0) = marks (Req_RequestStat ([example_request] ! 0)) @ new \<and>
          track (Some True) AwaitingSendConfirmed new = Some state \<and> (err v = None \<longrightarrow> awaiting_dest state)"
    by (rule order [THEN conjunct2, THEN spec, THEN mp, OF example_runs_known_ARM(1), THEN conjunct2, rule_format])
       simp
  then obtain state where
    "track (Some True) AwaitingSendConfirmed (marks (reqStats_after v ! 0)) = Some state"
    by (auto simp only: example_request_unmarked append_Nil)
  with ms have "track (Some True) AwaitingSendConfirmed (marks (reqStats_after v ! 0)) = Some Completed"
    by (simp add: closing_def)
  with run ok cs ms waits
  show "\<exists>v. ValidateRequestByTxHash 30 [example_request] ''0xabc'' 2 example_finalized [] fresh_lane complete_run =
        Some (Return v []) \<and>
        map fst (calls v) = [Send, SourceFinalized, DestSeqIncrement 7, ReportAccepted 7, ReportBlessedWait 7,
                             ExecutionStateChanged 7] \<and>
        list_all succeeded (butlast (calls v)) \<and> err v = None \<and>
        marks (reqStats_after v ! 0) =
          [(CCIPSendRe, Success), (SourceLogFinalized, Success), (Commit, Success), (ReportBlessed, Success),
           (ExecStateChanged, Success)] \<and>
        track (Some True) AwaitingSendConfirmed (marks (reqStats_after v ! 0)) = Some Completed"
    by (intro exI [of _ v]) simp
next
  from failing_run_value obtain v where
    run: "ValidateRequestByTxHash 30 [example_request] ''0xabc'' 2 example_finalized [] fresh_lane failing_run =
            Some (Return v [])"
    and cs: "calls v = [(Send, None), (SourceFinalized, None), (DestSeqIncrement 7, None),
                 (ReportAccepted 7, Some (Errorf ''ReportAccepted is not found for seq num %d lane %d-->%d''
                                            [Uint 7, Uint 1337, Num 2337]))]"
    and ms: "marks (reqStats_after v ! 0) =
        [(CCIPSendRe, Success), (SourceLogFinalized, Success), (Commit, Failure)]"
    by (elim exE conjE)
  have last: "\<not> succeeded (last (calls v))" by (simp add: cs succeeded_def)
  note order = ValidateRequestByTxHash_phase_order [OF run]
  from order [THEN conjunct1]
  have waits: "list_all succeeded (butlast (calls v))" "\<not> succeeded (last (calls v)) \<longrightarrow> err v \<noteq> None"
    by blast+
  have "\<exists>new state. marks (reqStats_after v ! 0) = marks (Req_RequestStat ([example_request] ! 0)) @ new \<and>
          track (Some True) AwaitingSendConfirmed new = Some state \<and> (err v = None \<longrightarrow> awaiting_dest state)"
    by (rule order [THEN conjunct2, THEN spec, THEN mp, OF example_runs_known_ARM(2), THEN conjunct2, rule_format])
       simp
  then obtain state where
    "track (Some True) AwaitingSendConfirmed (marks (reqStats_after v ! 0)) = Some state"
    by (auto simp only: example_request_unmarked append_Nil)
  with ms have "track (Some True) AwaitingSendConfirmed (marks (reqStats_after v ! 0)) = Some Failed"
    by (simp add: closing_def)
  with run cs ms last waits
  show "\<exists>v. ValidateRequestByTxHash 30 [example_request] ''0xabc'' 2 example_finalized [] fresh_lane failing_run =
        Some (Return v []) \<and>
        map fst (calls v) = [Send, SourceFinalized, DestSeqIncrement 7, ReportAccepted 7] \<and>
        list_all succeeded (butlast (calls v)) \<and> \<not> succeeded (last (calls v)) \<and> err v \<noteq> None \<and>
        marks (reqStats_after v ! 0) =
          [(CCIPSendRe, Success), (SourceLogFinalized, Success), (Commit, Failure)] \<and>
        track (Some True) AwaitingSendConfirmed (marks (reqStats_after v ! 0)) = Some Failed"
    by (intro exI [of _ v]) simp
next
  from mock_run_value obtain v where
    run: "ValidateRequestByTxHash 30 [example_request] ''0xabc'' 2 example_finalized [] mock_lane complete_run =
            Some (Return v [])"
    and ok: "err v = None"
    and cs: "calls v = [(Send, None), (SourceFinalized, None), (DestSeqIncrement 7, None), (ReportAccepted 7, None),
                        (ReportBlessedWait 7, None), (ExecutionStateChanged 7, None)]"
    and ms: "marks (reqStats_after v ! 0) =
        [(CCIPSendRe, Success), (SourceLogFinalized, Success), (Commit, Success), (ExecStateChanged, Success)]"
    by (elim exE conjE)
  note order = ValidateRequestByTxHash_phase_order [OF run]
  from order [THEN conjunct1]
  have waits: "list_all succeeded (butlast (calls v))" by (elim exE conjE)
  have "\<exists>new state. marks (reqStats_after v ! 0) = marks (Req_RequestStat ([example_request] ! 0)) @ new \<and>
          track (Some False) AwaitingSendConfirmed new = Some state \<and> (err v = None \<longrightarrow> awaiting_dest state)"
    by (rule order [THEN conjunct2, THEN spec, THEN mp, OF example_runs_known_ARM(3), THEN conjunct2, rule_format])
       simp
  then obtain state where
    "track (Some False) AwaitingSendConfirmed (marks (reqStats_after v ! 0)) = Some state"
    by (auto simp only: example_request_unmarked append_Nil)
  with ms have "track (Some False) AwaitingSendConfirmed (marks (reqStats_after v ! 0)) = Some Completed"
    by (simp add: closing_def)
  with run ok cs ms waits
  show "\<exists>v. ValidateRequestByTxHash 30 [example_request] ''0xabc'' 2 example_finalized [] mock_lane complete_run =
        Some (Return v []) \<and>
        map fst (calls v) = [Send, SourceFinalized, DestSeqIncrement 7, ReportAccepted 7, ReportBlessedWait 7,
                             ExecutionStateChanged 7] \<and>
        list_all succeeded (butlast (calls v)) \<and> err v = None \<and>
        marks (reqStats_after v ! 0) =
          [(CCIPSendRe, Success), (SourceLogFinalized, Success), (Commit, Success), (ExecStateChanged, Success)] \<and>
        track (Some False) AwaitingSendConfirmed (marks (reqStats_after v ! 0)) = Some Completed"
    by (intro exI [of _ v]) simp
qed
end
